theory Spec2Isabelle
  imports Complex_Main "HOL-Library.Multiset" "HOL-Library.Sublist"
begin

section \<open>Python values\<close>

text \<open>
  The downloader navigates whatever \<^verbatim>\<open>json.loads\<close> and \<^verbatim>\<open>response.json()\<close> return.
  A value is \<^verbatim>\<open>None\<close>, a bool, a number, a \<^verbatim>\<open>str\<close>, a \<^verbatim>\<open>list\<close> or a \<^verbatim>\<open>dict\<close> with \<^verbatim>\<open>str\<close>
  keys. A \<^verbatim>\<open>dict\<close> keeps its insertion order, which \<^verbatim>\<open>search_dict\<close> observes, so it is an
  association list (a Python \<^verbatim>\<open>dict\<close> has no repeated key; \<open>map_of\<close> reads the first
  binding). A \<^verbatim>\<open>str\<close> is a \<open>string\<close>, one \<open>char\<close> per code point below 256. Numbers are
  integers: the code never computes with a number of the platform's data.
\<close>

datatype json =
    JNull
  | JBool bool
  | JNum int
  | JStr string
  | JArr "json list"
  | JObj "(string \<times> json) list"

text \<open>
  The exceptions the modelled code can raise. \<open>SortError\<close> is the \<^verbatim>\<open>RuntimeError\<close> of the
  sort resolution, \<open>ServerError\<close> the \<^verbatim>\<open>RuntimeError\<close> that carries the platform's
  \<^verbatim>\<open>externalErrorMessage\<close> (both messages are Chinese text in the source).
  \<open>StopIteration\<close> is \<^verbatim>\<open>next\<close> without a default on an exhausted iterator,
  \<open>JSONDecodeError\<close> a body that \<^verbatim>\<open>response.json()\<close> cannot parse, and
  \<open>RequestException\<close> any failure of \<^verbatim>\<open>session.post\<close> other than a timeout.
\<close>

datatype error =
    KeyError
  | TypeError
  | AttributeError
  | IndexError
  | ValueError
  | StopIteration
  | SortError
  | ServerError string
  | JSONDecodeError
  | RequestException

definition bind_err :: "error + 'a \<Rightarrow> ('a \<Rightarrow> error + 'b) \<Rightarrow> error + 'b" where
  "bind_err x f = (case x of Inl e \<Rightarrow> Inl e | Inr v \<Rightarrow> f v)"

text \<open>Truth value testing: \<^verbatim>\<open>if x\<close>, \<^verbatim>\<open>not x\<close>, \<^verbatim>\<open>x or y\<close>.\<close>

fun truthy :: "json \<Rightarrow> bool" where
  "truthy JNull = False"
| "truthy (JBool b) = b"
| "truthy (JNum n) = (n \<noteq> 0)"
| "truthy (JStr s) = (s \<noteq> [])"
| "truthy (JArr xs) = (xs \<noteq> [])"
| "truthy (JObj items) = (items \<noteq> [])"

text \<open>\<^verbatim>\<open>x[key]\<close> with a \<^verbatim>\<open>str\<close> key: only a \<^verbatim>\<open>dict\<close> can be subscripted by a \<^verbatim>\<open>str\<close>.\<close>

fun py_getitem :: "json \<Rightarrow> string \<Rightarrow> error + json" where
  "py_getitem (JObj items) key =
     (case map_of items key of None \<Rightarrow> Inl KeyError | Some v \<Rightarrow> Inr v)"
| "py_getitem _ key = Inl TypeError"

text \<open>\<^verbatim>\<open>x.get(key, default)\<close>: a method of \<^verbatim>\<open>dict\<close> only.\<close>

fun py_get :: "json \<Rightarrow> string \<Rightarrow> json \<Rightarrow> error + json" where
  "py_get (JObj items) key dflt =
     (case map_of items key of None \<Rightarrow> Inr dflt | Some v \<Rightarrow> Inr v)"
| "py_get _ key dflt = Inl AttributeError"

text \<open>
  \<^verbatim>\<open>key in x\<close> for a \<^verbatim>\<open>str\<close> key: a key of a \<^verbatim>\<open>dict\<close>, an element of a \<^verbatim>\<open>list\<close>, a
  substring of a \<^verbatim>\<open>str\<close>; the other values are not containers.
\<close>

fun py_contains :: "string \<Rightarrow> json \<Rightarrow> error + bool" where
  "py_contains key (JObj items) = Inr (key \<in> fst ` set items)"
| "py_contains key (JArr xs) = Inr (JStr key \<in> set xs)"
| "py_contains key (JStr s) = Inr (sublist key s)"
| "py_contains key _ = Inl TypeError"

text \<open>\<^verbatim>\<open>for item in x\<close>: the elements of a \<^verbatim>\<open>list\<close>, the keys of a \<^verbatim>\<open>dict\<close>, the characters of a \<^verbatim>\<open>str\<close>.\<close>

fun py_iter :: "json \<Rightarrow> error + json list" where
  "py_iter (JArr xs) = Inr xs"
| "py_iter (JObj items) = Inr (map (\<lambda>kv. JStr (fst kv)) items)"
| "py_iter (JStr s) = Inr (map (\<lambda>c. JStr [c]) s)"
| "py_iter _ = Inl TypeError"

fun py_len :: "json \<Rightarrow> error + int" where
  "py_len (JArr xs) = Inr (int (length xs))"
| "py_len (JObj items) = Inr (int (length items))"
| "py_len (JStr s) = Inr (int (length s))"
| "py_len _ = Inl TypeError"

text \<open>
  \<^verbatim>\<open>x[i]\<close> with an \<^verbatim>\<open>int\<close>: a negative index counts from the end of a \<^verbatim>\<open>list\<close> or \<^verbatim>\<open>str\<close>;
  a \<^verbatim>\<open>dict\<close> of \<^verbatim>\<open>str\<close> keys has no \<^verbatim>\<open>int\<close> key.
\<close>

definition list_index :: "'a list \<Rightarrow> int \<Rightarrow> error + 'a" where
  "list_index xs i =
     (if 0 \<le> i \<and> i < int (length xs) then Inr (xs ! nat i)
      else if i < 0 \<and> - int (length xs) \<le> i then Inr (xs ! nat (int (length xs) + i))
      else Inl IndexError)"

fun py_index :: "json \<Rightarrow> int \<Rightarrow> error + json" where
  "py_index (JArr xs) i = list_index xs i"
| "py_index (JStr s) i = bind_err (list_index s i) (\<lambda>c. Inr (JStr [c]))"
| "py_index (JObj items) i = Inl KeyError"
| "py_index _ i = Inl TypeError"

text \<open>\<^verbatim>\<open>prefix + x\<close> for a \<^verbatim>\<open>str\<close> prefix, and \<^verbatim>\<open>x.startswith(prefix)\<close>.\<close>

fun py_concat :: "string \<Rightarrow> json \<Rightarrow> error + string" where
  "py_concat p (JStr s) = Inr (p @ s)"
| "py_concat p _ = Inl TypeError"

fun py_startswith :: "json \<Rightarrow> string \<Rightarrow> error + bool" where
  "py_startswith (JStr s) p = Inr (prefix p s)"
| "py_startswith _ p = Inl AttributeError"

text \<open>
  \<^verbatim>\<open>str.strip()\<close> removes leading and trailing whitespace: the code points below 256
  for which \<^verbatim>\<open>str.isspace()\<close> holds.
\<close>

definition is_space :: "char \<Rightarrow> bool" where
  "is_space c = ((of_char c :: nat) \<in> {9, 10, 11, 12, 13, 28, 29, 30, 31, 32, 133, 160})"

definition strip :: "string \<Rightarrow> string" where
  "strip s = rev (dropWhile is_space (rev (dropWhile is_space s)))"

text \<open>
  Keys of the dictionaries the code builds. A key must be hashable (a \<^verbatim>\<open>list\<close> or a
  \<^verbatim>\<open>dict\<close> raises \<^verbatim>\<open>TypeError\<close>), and \<^verbatim>\<open>True\<close> and \<^verbatim>\<open>False\<close> are the keys
  \<^verbatim>\<open>1\<close> and \<^verbatim>\<open>0\<close>. Item assignment replaces the value of a key that is present and
  appends a new key.
\<close>

datatype hkey = HNone | HNum int | HStr string

fun hashkey :: "json \<Rightarrow> error + hkey" where
  "hashkey JNull = Inr HNone"
| "hashkey (JBool b) = Inr (HNum (if b then 1 else 0))"
| "hashkey (JNum n) = Inr (HNum n)"
| "hashkey (JStr s) = Inr (HStr s)"
| "hashkey _ = Inl TypeError"

fun dict_set :: "('k \<times> 'v) list \<Rightarrow> 'k \<Rightarrow> 'v \<Rightarrow> ('k \<times> 'v) list" where
  "dict_set [] k v = [(k, v)]"
| "dict_set ((k', v') # d) k v = (if k' = k then (k', v) # d else (k', v') # dict_set d k v)"

text \<open>\<^verbatim>\<open>next(iterator, default)\<close> on a fresh iterator over \<open>xs\<close>.\<close>

definition next_or :: "'a list \<Rightarrow> 'a \<Rightarrow> 'a" where
  "next_or xs dflt = (case xs of [] \<Rightarrow> dflt | x # _ \<Rightarrow> x)"

section \<open>The key search\<close>

text \<open>
  \<^verbatim>\<open>search_dict(partial, search_key)\<close> is a generator over an explicit stack, a Python
  list whose end is its top: \<^verbatim>\<open>stack.pop()\<close> takes the last element, \<^verbatim>\<open>append\<close> and
  \<^verbatim>\<open>extend\<close> add at the end. \<open>search_stack\<close> is the \<^verbatim>\<open>while stack\<close> loop and returns the
  values in the order they are yielded. The values of a \<^verbatim>\<open>dict\<close> are yielded while its
  items are walked and the stack is read again only after that walk, so the yields of
  one \<^verbatim>\<open>dict\<close> come first. A value under the searched key is yielded and \<^emph>\<open>not\<close> pushed.
\<close>

fun jsize :: "json \<Rightarrow> nat" where
  "jsize (JArr xs) = Suc (sum_list (map jsize xs))"
| "jsize (JObj items) = Suc (sum_list (map (\<lambda>kv. jsize (snd kv)) items))"
| "jsize _ = 1"

lemma sum_list_filter_le:
  "sum_list (map f (filter P xs)) \<le> sum_list (map (f::'a \<Rightarrow> nat) xs)"
  by (induction xs) auto

lemma sum_jsize_butlast:
  "stack \<noteq> [] \<Longrightarrow>
   sum_list (map jsize stack) = sum_list (map jsize (butlast stack)) + jsize (last stack)"
  by (induction stack) auto

function search_stack :: "string \<Rightarrow> json list \<Rightarrow> json list" where
  "search_stack search_key stack =
     (if stack = [] then []
      else (case last stack of
              JObj items \<Rightarrow>
                map snd (filter (\<lambda>kv. fst kv = search_key) items)
                @ search_stack search_key
                    (butlast stack @ map snd (filter (\<lambda>kv. fst kv \<noteq> search_key) items))
            | JArr xs \<Rightarrow> search_stack search_key (butlast stack @ xs)
            | _ \<Rightarrow> search_stack search_key (butlast stack)))"
  by pat_completeness auto
termination
  by (relation "measure (\<lambda>(k, stack). sum_list (map jsize stack))")
     (auto simp: sum_jsize_butlast comp_def intro!: le_imp_less_Suc sum_list_filter_le)

declare search_stack.simps [simp del]

definition search_dict :: "json \<Rightarrow> string \<Rightarrow> json list" where
  "search_dict partial search_key = search_stack search_key [partial]"

section \<open>The network and the clock\<close>

text \<open>
  \<^verbatim>\<open>session.post\<close> and \<^verbatim>\<open>time.sleep\<close> are the effects of the generator. The platform is
  a parameter: a transition function \<open>post\<close> on a server state, which answers one
  request with a response (its status code, and its body when \<^verbatim>\<open>response.json()\<close> can
  parse it), a \<^verbatim>\<open>requests.exceptions.Timeout\<close> or another failure. The world is the
  server state together with the events so far, one per POST and one per sleep
  (durations in seconds).
\<close>

record request =
  req_url :: string
  req_key :: json
  req_context :: json
  req_continuation :: json
  req_timeout :: rat

datatype http = Response nat "json option" | Timeout | Failure

datatype event = Posted request | Slept rat

record 's world =
  server :: 's
  events :: "event list"

definition session_post ::
  "('s \<Rightarrow> request \<Rightarrow> http \<times> 's) \<Rightarrow> request \<Rightarrow> 's world \<Rightarrow> http \<times> 's world" where
  "session_post post req w =
     (case post (server w) req of
        (r, s') \<Rightarrow> (r, w\<lparr>server := s', events := events w @ [Posted req]\<rparr>))"

definition time_sleep :: "rat \<Rightarrow> 's world \<Rightarrow> 's world" where
  "time_sleep d w = w\<lparr>events := events w @ [Slept d]\<rparr>"

section \<open>ajax_request\<close>

text \<open>
  \<open>request_loop\<close> is \<^verbatim>\<open>for _ in range(retries)\<close>, on the number of attempts left. The
  API key is read from \<^verbatim>\<open>ytcfg\<close> inside the loop, outside the reach of
  \<^verbatim>\<open>except Timeout\<close>. Falling out of the loop returns \<^verbatim>\<open>None\<close>, which is \<open>JNull\<close>.
\<close>

fun request_loop ::
  "('s \<Rightarrow> request \<Rightarrow> http \<times> 's) \<Rightarrow> string \<Rightarrow> json \<Rightarrow> json \<Rightarrow> json \<Rightarrow> rat \<Rightarrow> rat \<Rightarrow> nat \<Rightarrow>
   's world \<Rightarrow> (error + json) \<times> 's world" where
  "request_loop post url ytcfg context token sleep timeout 0 w = (Inr JNull, w)"
| "request_loop post url ytcfg context token sleep timeout (Suc n) w =
     (case py_getitem ytcfg ''INNERTUBE_API_KEY'' of
        Inl e \<Rightarrow> (Inl e, w)
      | Inr key \<Rightarrow>
          (case session_post post
                  \<lparr>req_url = url, req_key = key, req_context = context,
                   req_continuation = token, req_timeout = timeout\<rparr> w of
             (Response status body, w') \<Rightarrow>
               if status = 200 then
                 (case body of None \<Rightarrow> (Inl JSONDecodeError, w') | Some j \<Rightarrow> (Inr j, w'))
               else if status \<in> {403, 413} then (Inr (JObj []), w')
               else request_loop post url ytcfg context token sleep timeout n (time_sleep sleep w')
           | (Timeout, w') \<Rightarrow>
               request_loop post url ytcfg context token sleep timeout n (time_sleep sleep w')
           | (Failure, w') \<Rightarrow> (Inl RequestException, w')))"

definition ajax_request ::
  "('s \<Rightarrow> request \<Rightarrow> http \<times> 's) \<Rightarrow> json \<Rightarrow> json \<Rightarrow> int \<Rightarrow> rat \<Rightarrow> rat \<Rightarrow> 's world \<Rightarrow>
   (error + json) \<times> 's world" where
  "ajax_request post endpoint ytcfg retries sleep timeout w =
     (case bind_err (py_getitem endpoint ''commandMetadata'') (\<lambda>m.
           bind_err (py_getitem m ''webCommandMetadata'') (\<lambda>m.
           bind_err (py_getitem m ''apiUrl'') (py_concat ''https://www.youtube.com''))) of
        Inl e \<Rightarrow> (Inl e, w)
      | Inr url \<Rightarrow>
          (case py_getitem ytcfg ''INNERTUBE_CONTEXT'' of
             Inl e \<Rightarrow> (Inl e, w)
           | Inr context \<Rightarrow>
               (case bind_err (py_getitem endpoint ''continuationCommand'') (\<lambda>c.
                     py_getitem c ''token'') of
                  Inl e \<Rightarrow> (Inl e, w)
                | Inr token \<Rightarrow>
                    request_loop post url ytcfg context token sleep timeout (nat retries) w)))"

text \<open>The call every caller of this file makes: \<^verbatim>\<open>retries=5, sleep=20, timeout=60\<close>.\<close>

definition ajax_request_default ::
  "('s \<Rightarrow> request \<Rightarrow> http \<times> 's) \<Rightarrow> json \<Rightarrow> json \<Rightarrow> 's world \<Rightarrow> (error + json) \<times> 's world" where
  "ajax_request_default post endpoint ytcfg w = ajax_request post endpoint ytcfg 5 20 60 w"

section \<open>Sort resolution\<close>

text \<open>
  \<^verbatim>\<open>next(self.search_dict(data, 'sortFilterSubMenuRenderer'), {}).get('subMenuItems', [])\<close>
\<close>

definition find_sort_menu :: "json \<Rightarrow> error + json" where
  "find_sort_menu data =
     py_get (next_or (search_dict data ''sortFilterSubMenuRenderer'') (JObj []))
       ''subMenuItems'' (JArr [])"

text \<open>
  The retry when the page has no sort menu: one call against the first
  \<^verbatim>\<open>continuationEndpoint\<close> of the \<^verbatim>\<open>sectionListRenderer\<close>, if there is one, and a second
  search in what the call returns.
\<close>

definition sort_menu_retry ::
  "('s \<Rightarrow> request \<Rightarrow> http \<times> 's) \<Rightarrow> json \<Rightarrow> json \<Rightarrow> 's world \<Rightarrow> (error + json) \<times> 's world" where
  "sort_menu_retry post ytcfg data w =
     (let section_list = next_or (search_dict data ''sectionListRenderer'') (JObj []);
          continuations = search_dict section_list ''continuationEndpoint''
      in case (if continuations \<noteq> [] then ajax_request_default post (hd continuations) ytcfg w
               else (Inr (JObj []), w)) of
           (Inl e, w') \<Rightarrow> (Inl e, w')
         | (Inr data', w') \<Rightarrow> (find_sort_menu data', w'))"

text \<open>The sort menu the selection works on: the one of the page, or the one of the retry.\<close>

definition sort_menu_of ::
  "('s \<Rightarrow> request \<Rightarrow> http \<times> 's) \<Rightarrow> json \<Rightarrow> json \<Rightarrow> 's world \<Rightarrow> (error + json) \<times> 's world" where
  "sort_menu_of post ytcfg data w =
     (case find_sort_menu data of
        Inl e \<Rightarrow> (Inl e, w)
      | Inr sort_menu \<Rightarrow>
          if \<not> truthy sort_menu then sort_menu_retry post ytcfg data w
          else (Inr sort_menu, w))"

text \<open>
  \<^verbatim>\<open>if not sort_menu or sort_by >= len(sort_menu): raise RuntimeError(...)\<close>, then
  \<^verbatim>\<open>continuations = [sort_menu[sort_by]['serviceEndpoint']]\<close>. \<^verbatim>\<open>sort_by\<close> is an \<^verbatim>\<open>int\<close>
  (the command line reads it with \<^verbatim>\<open>type=int\<close>).
\<close>

definition resolve_sort ::
  "('s \<Rightarrow> request \<Rightarrow> http \<times> 's) \<Rightarrow> json \<Rightarrow> json \<Rightarrow> int \<Rightarrow> 's world \<Rightarrow>
   (error + json list) \<times> 's world" where
  "resolve_sort post ytcfg data sort_by w =
     (case sort_menu_of post ytcfg data w of
        (Inl e, w') \<Rightarrow> (Inl e, w')
      | (Inr sort_menu, w') \<Rightarrow>
          if \<not> truthy sort_menu then (Inl SortError, w')
          else (case py_len sort_menu of
                  Inl e \<Rightarrow> (Inl e, w')
                | Inr n \<Rightarrow>
                    if sort_by \<ge> n then (Inl SortError, w')
                    else (case bind_err (py_index sort_menu sort_by) (\<lambda>entry.
                                 py_getitem entry ''serviceEndpoint'') of
                            Inl e \<Rightarrow> (Inl e, w')
                          | Inr endpoint \<Rightarrow> (Inr [endpoint], w'))))"

section \<open>The continuation list\<close>

text \<open>
  \<^verbatim>\<open>continuations\<close> is a Python list. \<^verbatim>\<open>continuations.pop()\<close> removes and returns its
  \<^emph>\<open>last\<close> element, \<^verbatim>\<open>continuations[:0] = eps\<close> inserts \<open>eps\<close> before its first element, and
  \<^verbatim>\<open>continuations.append(c)\<close> adds \<open>c\<close> after its last.
\<close>

definition py_pop :: "'a list \<Rightarrow> error + ('a \<times> 'a list)" where
  "py_pop xs = (if xs = [] then Inl IndexError else Inr (last xs, butlast xs))"

definition insert_front :: "'a list \<Rightarrow> 'a list \<Rightarrow> 'a list" where
  "insert_front eps continuations = eps @ continuations"

definition append_back :: "'a \<Rightarrow> 'a list \<Rightarrow> 'a list" where
  "append_back c continuations = continuations @ [c]"

definition comment_section_ids :: "json list" where
  "comment_section_ids =
     [JStr ''comments-section'',
      JStr ''engagement-panel-comments-section'',
      JStr ''shorts-engagement-panel-comments-section'']"

text \<open>
  What the two \<^verbatim>\<open>if\<close>s of the inner loop find in one item: the endpoints inserted at the
  front, and the command appended at the back (at most one).
\<close>

definition same_feed_of :: "json \<Rightarrow> json \<Rightarrow> error + json list" where
  "same_feed_of action item =
     bind_err (py_getitem action ''targetId'') (\<lambda>target.
       Inr (if target \<in> set comment_section_ids
            then search_dict item ''continuationEndpoint'' else []))"

definition more_replies_of :: "json \<Rightarrow> json \<Rightarrow> error + json list" where
  "more_replies_of action item =
     bind_err (py_getitem action ''targetId'') (\<lambda>target.
     bind_err (py_startswith target ''comment-replies-item'') (\<lambda>starts.
     bind_err (if starts then py_contains ''continuationItemRenderer'' item else Inr False) (\<lambda>more.
       if more then
         (case search_dict item ''buttonRenderer'' of
            [] \<Rightarrow> Inl StopIteration
          | button # _ \<Rightarrow> bind_err (py_getitem button ''command'') (\<lambda>command. Inr [command]))
       else Inr [])))"

definition process_item :: "json \<Rightarrow> json \<Rightarrow> json list \<Rightarrow> error + json list" where
  "process_item action item continuations =
     bind_err (same_feed_of action item) (\<lambda>eps.
     bind_err (more_replies_of action item) (\<lambda>commands.
       Inr (fold append_back commands (insert_front eps continuations))))"

fun process_items :: "json \<Rightarrow> json list \<Rightarrow> json list \<Rightarrow> error + json list" where
  "process_items action [] continuations = Inr continuations"
| "process_items action (item # items) continuations =
     bind_err (process_item action item continuations) (process_items action items)"

text \<open>\<^verbatim>\<open>for action in actions: for item in action.get('continuationItems', []): ...\<close>\<close>

fun process_actions :: "json list \<Rightarrow> json list \<Rightarrow> error + json list" where
  "process_actions [] continuations = Inr continuations"
| "process_actions (action # actions) continuations =
     bind_err (py_get action ''continuationItems'' (JArr [])) (\<lambda>v.
     bind_err (py_iter v) (\<lambda>items.
     bind_err (process_items action items continuations) (process_actions actions)))"

definition actions_of :: "json \<Rightarrow> json list" where
  "actions_of response =
     search_dict response ''reloadContinuationItemsCommand''
     @ search_dict response ''appendContinuationItemsAction''"

section \<open>Reconciliation of one response\<close>

text \<open>
  The three dictionaries are built from the response at hand, in the order of the source:
  \<^verbatim>\<open>payments\<close>, then (only if it is not empty) the view models and \<^verbatim>\<open>surface_keys\<close> and the
  re-keyed \<^verbatim>\<open>payments\<close>, then \<^verbatim>\<open>toolbar_states\<close>.
\<close>

fun build_payments :: "json list \<Rightarrow> (hkey \<times> json) list \<Rightarrow> error + (hkey \<times> json) list" where
  "build_payments [] d = Inr d"
| "build_payments (payload # payloads) d =
     bind_err (py_contains ''pdgCommentChip'' payload) (\<lambda>chip.
       if chip then
         bind_err (py_getitem payload ''key'') (\<lambda>key.
         bind_err (hashkey key) (\<lambda>k.
           build_payments payloads
             (dict_set d k (next_or (search_dict payload ''simpleText'') (JStr [])))))
       else build_payments payloads d)"

fun view_models_of :: "json list \<Rightarrow> error + json list" where
  "view_models_of [] = Inr []"
| "view_models_of (vm # vms) =
     bind_err (py_getitem vm ''commentViewModel'') (\<lambda>v.
     bind_err (view_models_of vms) (\<lambda>vs. Inr (v # vs)))"

fun build_surface_keys :: "json list \<Rightarrow> (hkey \<times> json) list \<Rightarrow> error + (hkey \<times> json) list" where
  "build_surface_keys [] d = Inr d"
| "build_surface_keys (vm # vms) d =
     bind_err (py_contains ''commentSurfaceKey'' vm) (\<lambda>has.
       if has then
         bind_err (py_getitem vm ''commentSurfaceKey'') (\<lambda>key.
         bind_err (py_getitem vm ''commentId'') (\<lambda>comment_id.
         bind_err (hashkey key) (\<lambda>k.
           build_surface_keys vms (dict_set d k comment_id))))
       else build_surface_keys vms d)"

fun rekey_payments ::
  "(hkey \<times> json) list \<Rightarrow> (hkey \<times> json) list \<Rightarrow> (hkey \<times> json) list \<Rightarrow> error + (hkey \<times> json) list" where
  "rekey_payments surface_keys [] d = Inr d"
| "rekey_payments surface_keys ((key, payment) # payments) d =
     (case map_of surface_keys key of
        None \<Rightarrow> rekey_payments surface_keys payments d
      | Some comment_id \<Rightarrow>
          bind_err (hashkey comment_id) (\<lambda>k.
            rekey_payments surface_keys payments (dict_set d k payment)))"

definition payments_of :: "json \<Rightarrow> error + (hkey \<times> json) list" where
  "payments_of response =
     bind_err (build_payments (search_dict response ''commentSurfaceEntityPayload'') []) (\<lambda>payments.
       if payments \<noteq> [] then
         bind_err (view_models_of (search_dict response ''commentViewModel'')) (\<lambda>view_models.
         bind_err (build_surface_keys view_models []) (\<lambda>surface_keys.
           rekey_payments surface_keys payments []))
       else Inr payments)"

fun build_toolbar_states :: "json list \<Rightarrow> (hkey \<times> json) list \<Rightarrow> error + (hkey \<times> json) list" where
  "build_toolbar_states [] d = Inr d"
| "build_toolbar_states (payload # payloads) d =
     bind_err (py_getitem payload ''key'') (\<lambda>key.
     bind_err (hashkey key) (\<lambda>k.
       build_toolbar_states payloads (dict_set d k payload)))"

definition toolbar_states_of :: "json \<Rightarrow> error + (hkey \<times> json) list" where
  "toolbar_states_of response =
     build_toolbar_states (search_dict response ''engagementToolbarStateEntityPayload'') []"

text \<open>\<^verbatim>\<open>d[key]\<close> on a dictionary the code built.\<close>

definition dict_getitem :: "(hkey \<times> 'v) list \<Rightarrow> json \<Rightarrow> error + 'v" where
  "dict_getitem d key =
     bind_err (hashkey key) (\<lambda>k. case map_of d k of None \<Rightarrow> Inl KeyError | Some v \<Rightarrow> Inr v)"

section \<open>Comment records\<close>

text \<open>
  The \<^verbatim>\<open>result\<close> dictionary of one comment; \<^verbatim>\<open>time_parsed\<close> and \<^verbatim>\<open>paid\<close> are the keys that
  may be absent. \<^verbatim>\<open>dateparser.parse(...).timestamp()\<close> is a parameter \<open>parse\<close>: it gives
  the timestamp, or nothing where \<^verbatim>\<open>dateparser.parse\<close> returns \<^verbatim>\<open>None\<close> (the
  \<^verbatim>\<open>AttributeError\<close> the source catches).
\<close>

record 'ts result =
  r_cid :: json
  r_text :: json
  r_time :: json
  r_author :: json
  r_channel :: json
  r_votes :: string
  r_replies :: json
  r_photo :: json
  r_heart :: bool
  r_reply :: bool
  r_time_parsed :: "'ts option"
  r_paid :: "json option"

text \<open>\<^verbatim>\<open>toolbar['likeCountNotliked'].strip() or "0"\<close>\<close>

definition votes_of :: "json \<Rightarrow> error + string" where
  "votes_of like_count =
     (case like_count of
        JStr s \<Rightarrow> Inr (if strip s \<noteq> [] then strip s else ''0'')
      | _ \<Rightarrow> Inl AttributeError)"

text \<open>\<^verbatim>\<open>toolbar_state.get('heartState', '') == 'TOOLBAR_HEART_STATE_HEARTED'\<close>\<close>

definition heart_of :: "json \<Rightarrow> error + bool" where
  "heart_of toolbar_state =
     bind_err (py_get toolbar_state ''heartState'' (JStr [])) (\<lambda>h.
       Inr (h = JStr ''TOOLBAR_HEART_STATE_HEARTED''))"

text \<open>\<^verbatim>\<open>'.' in cid\<close>\<close>

definition reply_of :: "json \<Rightarrow> error + bool" where
  "reply_of cid = py_contains ''.'' cid"

text \<open>
  \<^verbatim>\<open>dateparser.parse(result['time'].split('(')[0].strip()).timestamp()\<close> under
  \<^verbatim>\<open>except AttributeError: pass\<close>: a \<^verbatim>\<open>time\<close> that is no \<^verbatim>\<open>str\<close> has no \<^verbatim>\<open>split\<close>.
\<close>

definition time_parsed_of :: "(string \<Rightarrow> 'ts option) \<Rightarrow> json \<Rightarrow> 'ts option" where
  "time_parsed_of parse t =
     (case t of
        JStr s \<Rightarrow> parse (strip (takeWhile (\<lambda>c. c \<noteq> CHR ''('') s))
      | _ \<Rightarrow> None)"

definition make_result ::
  "(string \<Rightarrow> 'ts option) \<Rightarrow> (hkey \<times> json) list \<Rightarrow> (hkey \<times> json) list \<Rightarrow> json \<Rightarrow>
   error + 'ts result" where
  "make_result parse payments toolbar_states comment =
     bind_err (py_getitem comment ''properties'') (\<lambda>properties.
     bind_err (py_getitem properties ''commentId'') (\<lambda>cid.
     bind_err (py_getitem comment ''author'') (\<lambda>author.
     bind_err (py_getitem comment ''toolbar'') (\<lambda>toolbar.
     bind_err (py_getitem properties ''toolbarStateKey'') (\<lambda>state_key.
     bind_err (dict_getitem toolbar_states state_key) (\<lambda>toolbar_state.
     bind_err (py_getitem properties ''content'') (\<lambda>content.
     bind_err (py_getitem content ''content'') (\<lambda>text.
     bind_err (py_getitem properties ''publishedTime'') (\<lambda>time.
     bind_err (py_getitem author ''displayName'') (\<lambda>display_name.
     bind_err (py_getitem author ''channelId'') (\<lambda>channel.
     bind_err (py_getitem toolbar ''likeCountNotliked'') (\<lambda>like_count.
     bind_err (votes_of like_count) (\<lambda>votes.
     bind_err (py_getitem toolbar ''replyCount'') (\<lambda>replies.
     bind_err (py_getitem author ''avatarThumbnailUrl'') (\<lambda>photo.
     bind_err (heart_of toolbar_state) (\<lambda>heart.
     bind_err (reply_of cid) (\<lambda>reply.
     bind_err (hashkey cid) (\<lambda>k.
       Inr \<lparr>r_cid = cid, r_text = text, r_time = time, r_author = display_name,
            r_channel = channel, r_votes = votes, r_replies = replies, r_photo = photo,
            r_heart = heart, r_reply = reply,
            r_time_parsed = time_parsed_of parse time,
            r_paid = map_of payments k\<rparr>))))))))))))))))))"

text \<open>
  The \<^verbatim>\<open>for comment in reversed(...)\<close> loop: the records yielded, and the exception that
  ended the loop if one did. Nothing is yielded for the comment that raises, nor after it.
\<close>

fun emit_comments ::
  "(string \<Rightarrow> 'ts option) \<Rightarrow> (hkey \<times> json) list \<Rightarrow> (hkey \<times> json) list \<Rightarrow> json list \<Rightarrow>
   'ts result list \<times> error option" where
  "emit_comments parse payments toolbar_states [] = ([], None)"
| "emit_comments parse payments toolbar_states (comment # comments) =
     (case make_result parse payments toolbar_states comment of
        Inl e \<Rightarrow> ([], Some e)
      | Inr r \<Rightarrow>
          (case emit_comments parse payments toolbar_states comments of
             (rs, e) \<Rightarrow> (r # rs, e)))"

definition comments_of :: "json \<Rightarrow> json list" where
  "comments_of response = rev (search_dict response ''commentEntityPayload'')"

text \<open>Everything one response yields: the part of the loop body after the actions.\<close>

definition response_records ::
  "(string \<Rightarrow> 'ts option) \<Rightarrow> json \<Rightarrow> 'ts result list \<times> error option" where
  "response_records parse response =
     (case payments_of response of
        Inl e \<Rightarrow> ([], Some e)
      | Inr payments \<Rightarrow>
          (case toolbar_states_of response of
             Inl e \<Rightarrow> ([], Some e)
           | Inr toolbar_states \<Rightarrow>
               emit_comments parse payments toolbar_states (comments_of response)))"

section \<open>The pagination loop\<close>

text \<open>
  \<^verbatim>\<open>error = next(self.search_dict(response, 'externalErrorMessage'), None)\<close>, and the
  \<^verbatim>\<open>raise\<close> under \<^verbatim>\<open>if error\<close>; an error that is no \<^verbatim>\<open>str\<close> cannot be concatenated.
\<close>

definition external_error :: "json \<Rightarrow> error option" where
  "external_error response =
     (let error = next_or (search_dict response ''externalErrorMessage'') JNull
      in if truthy error then
           (case error of JStr s \<Rightarrow> Some (ServerError s) | _ \<Rightarrow> Some TypeError)
         else None)"

text \<open>
  One turn of \<^verbatim>\<open>while continuations\<close>, for a list that is not empty: the records it
  yields, how it ends (\<^verbatim>\<open>break\<close>, an exception, or the next turn with the updated list),
  and the world after it. The records of a turn are yielded before the politeness sleep.
\<close>

datatype control = Break | Raise error | Continue "json list"

definition page_body ::
  "('s \<Rightarrow> request \<Rightarrow> http \<times> 's) \<Rightarrow> (string \<Rightarrow> 'ts option) \<Rightarrow> json \<Rightarrow> rat \<Rightarrow> json list \<Rightarrow>
   's world \<Rightarrow> 'ts result list \<times> control \<times> 's world" where
  "page_body post parse ytcfg sleep continuations w =
     (case py_pop continuations of
        Inl e \<Rightarrow> ([], Raise e, w)
      | Inr (continuation, continuations) \<Rightarrow>
          (case ajax_request_default post continuation ytcfg w of
             (Inl e, w') \<Rightarrow> ([], Raise e, w')
           | (Inr response, w') \<Rightarrow>
               if \<not> truthy response then ([], Break, w')
               else (case external_error response of
                       Some e \<Rightarrow> ([], Raise e, w')
                     | None \<Rightarrow>
                         (case process_actions (actions_of response) continuations of
                            Inl e \<Rightarrow> ([], Raise e, w')
                          | Inr continuations \<Rightarrow>
                              (case response_records parse response of
                                 (rs, Some e) \<Rightarrow> (rs, Raise e, w')
                               | (rs, None) \<Rightarrow>
                                   (rs, Continue continuations, time_sleep sleep w'))))))"

text \<open>
  What a run of the generator does when it is pulled to its end: the records in the
  order they are yielded, and whether the generator returned or raised. The loop runs
  for as long as the platform hands out continuations, so the run is partial.
\<close>

datatype outcome = Done | Failed error

partial_function (option) page_loop ::
  "('s \<Rightarrow> request \<Rightarrow> http \<times> 's) \<Rightarrow> (string \<Rightarrow> 'ts option) \<Rightarrow> json \<Rightarrow> rat \<Rightarrow> 'ts result list \<Rightarrow>
   json list \<Rightarrow> 's world \<Rightarrow> (('ts result list \<times> outcome) \<times> 's world) option" where
  "page_loop post parse ytcfg sleep yielded continuations w =
     (if continuations = [] then Some ((yielded, Done), w)
      else (case page_body post parse ytcfg sleep continuations w of
              (rs, Break, w') \<Rightarrow> Some ((yielded @ rs, Done), w')
            | (rs, Raise e, w') \<Rightarrow> Some ((yielded @ rs, Failed e), w')
            | (rs, Continue continuations', w') \<Rightarrow>
                page_loop post parse ytcfg sleep (yielded @ rs) continuations' w'))"

declare page_loop.simps [code]

section \<open>get_comments_from_url, from the parsed page on\<close>

text \<open>
  \<^verbatim>\<open>ytcfg['INNERTUBE_CONTEXT']['client']['hl'] = language\<close> under \<^verbatim>\<open>if language\<close>.
\<close>

definition set_item :: "json \<Rightarrow> string \<Rightarrow> json \<Rightarrow> error + json" where
  "set_item d key v = (case d of JObj items \<Rightarrow> Inr (JObj (dict_set items key v)) | _ \<Rightarrow> Inl TypeError)"

definition set_language :: "json \<Rightarrow> string option \<Rightarrow> error + json" where
  "set_language ytcfg language =
     (case language of
        None \<Rightarrow> Inr ytcfg
      | Some l \<Rightarrow>
          if l = [] then Inr ytcfg
          else
            bind_err (py_getitem ytcfg ''INNERTUBE_CONTEXT'') (\<lambda>context.
            bind_err (py_getitem context ''client'') (\<lambda>client.
            bind_err (set_item client ''hl'' (JStr l)) (\<lambda>client'.
            bind_err (set_item context ''client'' client') (\<lambda>context'.
              set_item ytcfg ''INNERTUBE_CONTEXT'' context')))))"

text \<open>
  The generator after the page has been fetched: \<open>ytcfg\<close> and \<open>data\<close> are what
  \<^verbatim>\<open>json.loads\<close> made of the two blobs of the HTML (\<^verbatim>\<open>{}\<close> where a blob is missing).
\<close>

definition comments_from_page ::
  "('s \<Rightarrow> request \<Rightarrow> http \<times> 's) \<Rightarrow> (string \<Rightarrow> 'ts option) \<Rightarrow> json \<Rightarrow> json \<Rightarrow> int \<Rightarrow>
   string option \<Rightarrow> rat \<Rightarrow> 's world \<Rightarrow> (('ts result list \<times> outcome) \<times> 's world) option" where
  "comments_from_page post parse ytcfg data sort_by language sleep w =
     (if \<not> truthy ytcfg then Some (([], Done), w)
      else (case set_language ytcfg language of
              Inl e \<Rightarrow> Some (([], Failed e), w)
            | Inr ytcfg \<Rightarrow>
                (let item_section = next_or (search_dict data ''itemSectionRenderer'') JNull;
                     renderer = (if truthy item_section
                                 then next_or (search_dict item_section ''continuationItemRenderer'') JNull
                                 else JNull)
                 in if \<not> truthy renderer then Some (([], Done), w)
                    else (case resolve_sort post ytcfg data sort_by w of
                            (Inl e, w') \<Rightarrow> Some (([], Failed e), w')
                          | (Inr continuations, w') \<Rightarrow>
                              page_loop post parse ytcfg sleep [] continuations w'))))"

section \<open>download_comments\<close>

text \<open>
  The generator that \<^verbatim>\<open>download_comments\<close> pulls is a parameter: the answer to each
  \<^verbatim>\<open>next(generator, None)\<close> by its number, a record, the end, or an exception. The number
  of pulls made is part of the state, so that a pull that is not made can be told from one
  that is. Every record is a \<^verbatim>\<open>dict\<close> that is not empty, so \<^verbatim>\<open>while comment\<close> stops at
  \<^verbatim>\<open>None\<close> only. The file is the list of the strings written, one per \<^verbatim>\<open>fp.write\<close>;
  \<open>to_json\<close>, the rendering of one record, is a parameter, and the progress messages on
  \<^verbatim>\<open>stdout\<close> and the creation of the output directory are left out.
\<close>

datatype 'r pull = Yield 'r | Stop | Raised error

definition INDENT :: nat where
  "INDENT = 4"

definition newline :: string where
  "newline = [CHR 0x0A]"

definition limit_reached :: "int option \<Rightarrow> int \<Rightarrow> bool" where
  "limit_reached limit cnt =
     (case limit of None \<Rightarrow> False | Some l \<Rightarrow> l \<noteq> 0 \<and> cnt \<ge> l)"

definition comment_str_of :: "('r \<Rightarrow> nat option \<Rightarrow> string) \<Rightarrow> bool \<Rightarrow> 'r \<Rightarrow> string" where
  "comment_str_of to_json pretty comment =
     (if pretty then replicate (2 * INDENT) CHR '' '' @ to_json comment (Some INDENT)
      else to_json comment None)"

text \<open>
  The \<^verbatim>\<open>while comment\<close> loop (\<open>cnt\<close> is the variable \<^verbatim>\<open>count\<close>). Its result is the
  exception that ended it or the final \<^verbatim>\<open>count\<close>, with the number of pulls made and the strings written.
\<close>

partial_function (option) write_loop ::
  "('r \<Rightarrow> nat option \<Rightarrow> string) \<Rightarrow> bool \<Rightarrow> int option \<Rightarrow> (nat \<Rightarrow> 'r pull) \<Rightarrow> 'r option \<Rightarrow> bool \<Rightarrow>
   int \<Rightarrow> nat \<Rightarrow> string list \<Rightarrow> ((error + int) \<times> nat \<times> string list) option" where
  "write_loop to_json pretty limit generator comment first_comment cnt pulled fp =
     (case comment of
        None \<Rightarrow> Some (Inr cnt, pulled, fp)
      | Some c \<Rightarrow>
          (let fp = (if \<not> first_comment then fp @ ['','' @ newline] else fp);
               fp = fp @ [comment_str_of to_json pretty c]
           in if limit_reached limit cnt then
                write_loop to_json pretty limit generator None False (cnt + 1) pulled fp
              else (case generator pulled of
                      Yield c' \<Rightarrow>
                        write_loop to_json pretty limit generator (Some c') False (cnt + 1)
                          (Suc pulled) fp
                    | Stop \<Rightarrow>
                        write_loop to_json pretty limit generator None False (cnt + 1)
                          (Suc pulled) fp
                    | Raised e \<Rightarrow> Some (Inl e, Suc pulled, fp))))"

declare write_loop.simps [code]

definition header :: "bool \<Rightarrow> string list" where
  "header pretty =
     [''{'' @ newline,
      (if pretty then replicate INDENT CHR '' '' @ [CHR 0x22] @ ''comments'' @ [CHR 0x22] @ '': ['' @ newline
       else [CHR 0x22] @ ''comments'' @ [CHR 0x22] @ '':['' @ newline)]"

definition footer :: "bool \<Rightarrow> string list" where
  "footer pretty =
     [newline,
      (if pretty then replicate INDENT CHR '' '' @ '']'' @ newline else '']'' @ newline),
      ''}'']"

definition download_comments ::
  "('r \<Rightarrow> nat option \<Rightarrow> string) \<Rightarrow> string option \<Rightarrow> string option \<Rightarrow> string option \<Rightarrow>
   int option \<Rightarrow> bool \<Rightarrow> (nat \<Rightarrow> 'r pull) \<Rightarrow> ((error + int) \<times> nat \<times> string list) option" where
  "download_comments to_json youtube_id youtube_url output_file limit pretty generator =
     (if youtube_id \<in> {None, Some []} \<and> youtube_url \<in> {None, Some []} then
        Some (Inl ValueError, 0, [])
      else if output_file \<in> {None, Some []} then Some (Inl ValueError, 0, [])
      else
        (case generator 0 of
           Raised e \<Rightarrow> Some (Inl e, 1, header pretty)
         | first \<Rightarrow>
             (case write_loop to_json pretty limit generator
                     (case first of Yield c \<Rightarrow> Some c | _ \<Rightarrow> None) True 1 1 (header pretty) of
                None \<Rightarrow> None
              | Some (Inl e, pulled, fp) \<Rightarrow> Some (Inl e, pulled, fp)
              | Some (Inr cnt, pulled, fp) \<Rightarrow>
                  Some (Inr (cnt - 1), pulled, fp @ footer pretty))))"

section \<open>Reference definitions\<close>

text \<open>
  The key search is compared with three definitions by recursion on the tree, which
  follow the words of the specification and not the loop. \<open>key_occurs k t\<close>: the key \<open>k\<close>
  appears somewhere in \<open>t\<close>, at any depth inside maps or sequences. \<open>values_under k t\<close>:
  every value found under \<open>k\<close> anywhere in \<open>t\<close>. \<open>outermost_values k t\<close>: the values under
  \<open>k\<close> that do not lie inside another value under \<open>k\<close>.
\<close>

fun key_occurs :: "string \<Rightarrow> json \<Rightarrow> bool" where
  "key_occurs k (JObj items) = list_ex (\<lambda>kv. fst kv = k \<or> key_occurs k (snd kv)) items"
| "key_occurs k (JArr xs) = list_ex (key_occurs k) xs"
| "key_occurs k _ = False"

fun values_under :: "string \<Rightarrow> json \<Rightarrow> json list" where
  "values_under k (JObj items) =
     concat (map (\<lambda>kv. (if fst kv = k then [snd kv] else []) @ values_under k (snd kv)) items)"
| "values_under k (JArr xs) = concat (map (values_under k) xs)"
| "values_under k _ = []"

fun outermost_values :: "string \<Rightarrow> json \<Rightarrow> json list" where
  "outermost_values k (JObj items) =
     concat (map (\<lambda>kv. if fst kv = k then [snd kv] else outermost_values k (snd kv)) items)"
| "outermost_values k (JArr xs) = concat (map (outermost_values k) xs)"
| "outermost_values k _ = []"

text \<open>
  What the actions of one response add to the continuation list, by recursion on the
  actions and their items: the endpoints that end up before the old list (a later item's
  endpoints before an earlier item's) and the commands that end up after it (in the order
  they are found). The exceptions are those of the loop, in its order.
\<close>

fun discovered_items :: "json \<Rightarrow> json list \<Rightarrow> error + (json list \<times> json list)" where
  "discovered_items action [] = Inr ([], [])"
| "discovered_items action (item # items) =
     bind_err (same_feed_of action item) (\<lambda>eps.
     bind_err (more_replies_of action item) (\<lambda>commands.
     bind_err (discovered_items action items) (\<lambda>fb.
       Inr (fst fb @ eps, commands @ snd fb))))"

fun discovered :: "json list \<Rightarrow> error + (json list \<times> json list)" where
  "discovered [] = Inr ([], [])"
| "discovered (action # actions) =
     bind_err (py_get action ''continuationItems'' (JArr [])) (\<lambda>v.
     bind_err (py_iter v) (\<lambda>items.
     bind_err (discovered_items action items) (\<lambda>fb.
     bind_err (discovered actions) (\<lambda>fb'.
       Inr (fst fb' @ fst fb, snd fb @ snd fb')))))"


text \<open>
  The request that every attempt of one \<^verbatim>\<open>ajax_request\<close> call sends, when the endpoint and
  \<^verbatim>\<open>ytcfg\<close> hold what the call reads. \<open>server_after post req s i\<close> is the server after \<open>i\<close>
  POSTs of \<open>req\<close> in a row and \<open>answer post req s i\<close> its answer to the next one. An answer
  is transient when the loop goes on after it: a timeout, or a status other than 200, 403
  and 413. \<open>attempts req sleep i\<close> are the events of \<open>i\<close> such attempts, each followed by
  its sleep, and \<open>posts\<close> counts the POSTs among events.
\<close>

definition request_of :: "json \<Rightarrow> json \<Rightarrow> rat \<Rightarrow> error + request" where
  "request_of endpoint ytcfg timeout =
     bind_err (py_getitem endpoint ''commandMetadata'') (\<lambda>m.
     bind_err (py_getitem m ''webCommandMetadata'') (\<lambda>m.
     bind_err (py_getitem m ''apiUrl'') (\<lambda>path.
     bind_err (py_concat ''https://www.youtube.com'' path) (\<lambda>url.
     bind_err (py_getitem ytcfg ''INNERTUBE_CONTEXT'') (\<lambda>context.
     bind_err (py_getitem endpoint ''continuationCommand'') (\<lambda>c.
     bind_err (py_getitem c ''token'') (\<lambda>token.
     bind_err (py_getitem ytcfg ''INNERTUBE_API_KEY'') (\<lambda>key.
       Inr \<lparr>req_url = url, req_key = key, req_context = context,
            req_continuation = token, req_timeout = timeout\<rparr>))))))))"

fun server_after :: "('s \<Rightarrow> request \<Rightarrow> http \<times> 's) \<Rightarrow> request \<Rightarrow> 's \<Rightarrow> nat \<Rightarrow> 's" where
  "server_after post req s 0 = s"
| "server_after post req s (Suc i) = server_after post req (snd (post s req)) i"

definition answer :: "('s \<Rightarrow> request \<Rightarrow> http \<times> 's) \<Rightarrow> request \<Rightarrow> 's \<Rightarrow> nat \<Rightarrow> http" where
  "answer post req s i = fst (post (server_after post req s i) req)"

fun transient :: "http \<Rightarrow> bool" where
  "transient Timeout = True"
| "transient (Response status body) = (status \<noteq> 200 \<and> status \<noteq> 403 \<and> status \<noteq> 413)"
| "transient Failure = False"

definition attempts :: "request \<Rightarrow> rat \<Rightarrow> nat \<Rightarrow> event list" where
  "attempts req sleep i = concat (replicate i [Posted req, Slept sleep])"

fun is_post :: "event \<Rightarrow> bool" where
  "is_post (Posted req) = True"
| "is_post (Slept d) = False"

definition posts :: "event list \<Rightarrow> nat" where
  "posts es = length (filter is_post es)"

text \<open>
  What one turn of the pagination loop yields, as a function of the response alone:
  nothing if the turn ends before the records (on an empty response, a platform error, or
  an exception among the actions), and otherwise the records of that response.
\<close>

definition iteration_records :: "(string \<Rightarrow> 'ts option) \<Rightarrow> json \<Rightarrow> 'ts result list" where
  "iteration_records parse response =
     (if \<not> truthy response \<or> external_error response \<noteq> None
         \<or> isl (discovered (actions_of response))
      then [] else fst (response_records parse response))"

text \<open>
  The records among the first \<open>n\<close> answers of a generator, and the file that holds given
  records: the two opening writes, the records with a separator write before each but the
  first, and the three closing writes.
\<close>

fun record_of :: "'r pull \<Rightarrow> 'r list" where
  "record_of (Yield c) = [c]"
| "record_of _ = []"

definition first_records :: "(nat \<Rightarrow> 'r pull) \<Rightarrow> nat \<Rightarrow> 'r list" where
  "first_records generator n = concat (map (\<lambda>i. record_of (generator i)) [0..<n])"

fun written_records :: "('r \<Rightarrow> nat option \<Rightarrow> string) \<Rightarrow> bool \<Rightarrow> 'r list \<Rightarrow> string list" where
  "written_records to_json pretty [] = []"
| "written_records to_json pretty (c # cs) =
     comment_str_of to_json pretty c
     # concat (map (\<lambda>c'. ['','' @ newline, comment_str_of to_json pretty c']) cs)"

definition expected_file :: "('r \<Rightarrow> nat option \<Rightarrow> string) \<Rightarrow> bool \<Rightarrow> 'r list \<Rightarrow> string list" where
  "expected_file to_json pretty recs =
     header pretty @ written_records to_json pretty recs @ footer pretty"

text \<open>
  The invariant of the \<^verbatim>\<open>while comment\<close> loop at its head: \<^verbatim>\<open>count\<close> is one more than the
  number of records written, these are the first answers of the generator, the file holds
  the opening writes and them, \<^verbatim>\<open>first_comment\<close> says that there are none yet, and a
  pending comment is the answer to the last pull made.
\<close>

definition loop_inv ::
  "('r \<Rightarrow> nat option \<Rightarrow> string) \<Rightarrow> bool \<Rightarrow> (nat \<Rightarrow> 'r pull) \<Rightarrow> 'r option \<Rightarrow> bool \<Rightarrow> int \<Rightarrow> nat \<Rightarrow>
   string list \<Rightarrow> bool" where
  "loop_inv to_json pretty generator comment first_comment cnt pulled fp \<longleftrightarrow>
     1 \<le> cnt \<and>
     (\<forall>i<nat (cnt - 1). \<exists>c. generator i = Yield c) \<and>
     fp = header pretty @ written_records to_json pretty (first_records generator (nat (cnt - 1))) \<and>
     (first_comment \<longleftrightarrow> cnt = 1) \<and>
     (\<forall>c. comment = Some c \<longrightarrow> generator (nat (cnt - 1)) = Yield c \<and> pulled = nat cnt)"

section \<open>Concrete inputs\<close>

text \<open>\<^verbatim>\<open>{"a": {"a": 1}, "b": [{"a": 2}, {"a": 3}]}\<close>\<close>

definition nested_tree :: json where
  "nested_tree =
     JObj [(''a'', JObj [(''a'', JNum 1)]),
           (''b'', JArr [JObj [(''a'', JNum 2)], JObj [(''a'', JNum 3)]])]"

text \<open>
  A comment entity with the given \<^verbatim>\<open>commentId\<close>, \<^verbatim>\<open>toolbarStateKey\<close> and
  \<^verbatim>\<open>likeCountNotliked\<close>, a toolbar-state payload with the given \<^verbatim>\<open>key\<close> and, if any,
  \<^verbatim>\<open>heartState\<close>, and a date parser that parses nothing.
\<close>

definition comment_entity :: "string \<Rightarrow> string \<Rightarrow> string \<Rightarrow> json" where
  "comment_entity cid state_key like_count =
     JObj [(''properties'',
              JObj [(''commentId'', JStr cid),
                    (''toolbarStateKey'', JStr state_key),
                    (''content'', JObj [(''content'', JStr ''hello'')]),
                    (''publishedTime'', JStr ''1 day ago'')]),
           (''author'',
              JObj [(''displayName'', JStr ''@ann''),
                    (''channelId'', JStr ''UC1''),
                    (''avatarThumbnailUrl'', JStr ''https://yt3.example/ann'')]),
           (''toolbar'',
              JObj [(''likeCountNotliked'', JStr like_count),
                    (''replyCount'', JStr ''0'')])]"

definition toolbar_payload :: "string \<Rightarrow> string option \<Rightarrow> json" where
  "toolbar_payload key heart_state =
     JObj ((''key'', JStr key) #
           (case heart_state of None \<Rightarrow> [] | Some h \<Rightarrow> [(''heartState'', JStr h)]))"

definition no_parse :: "string \<Rightarrow> rat option" where
  "no_parse s = None"

text \<open>
  A continuation endpoint with the given token; an item that carries a "show more
  replies" button with the given command; an item that carries the endpoint of the next
  page; an action with a target and items; and a response whose
  \<^verbatim>\<open>reloadContinuationItemsCommand\<close> targets a reply thread and whose
  \<^verbatim>\<open>appendContinuationItemsAction\<close> targets the comments section.
\<close>

definition endpoint_with :: "string \<Rightarrow> json" where
  "endpoint_with token =
     JObj [(''commandMetadata'',
              JObj [(''webCommandMetadata'', JObj [(''apiUrl'', JStr ''/youtubei/v1/next'')])]),
           (''continuationCommand'', JObj [(''token'', JStr token)])]"





text \<open>
  A platform that answers from a script, one answer per POST whatever the request, and
  times out when the script is over; and a \<^verbatim>\<open>ytcfg\<close> with the two keys the calls read.
\<close>

definition scripted :: "http list \<Rightarrow> request \<Rightarrow> http \<times> http list" where
  "scripted s req = (case s of [] \<Rightarrow> (Timeout, []) | r # rs \<Rightarrow> (r, rs))"

definition ytcfg_ok :: json where
  "ytcfg_ok =
     JObj [(''INNERTUBE_CONTEXT'', JObj [(''client'', JObj [(''hl'', JStr ''en'')])]),
           (''INNERTUBE_API_KEY'', JStr ''key'')]"

definition request_for :: "string \<Rightarrow> request" where
  "request_for token =
     \<lparr>req_url = ''https://www.youtube.com/youtubei/v1/next'', req_key = JStr ''key'',
      req_context = JObj [(''client'', JObj [(''hl'', JStr ''en'')])],
      req_continuation = JStr token, req_timeout = 60\<rparr>"

text \<open>
  The initial data of a page whose sort menu has two entries, popular (0) and recent (1),
  under a comments section that is enabled.
\<close>

definition two_entry_page :: json where
  "two_entry_page =
     JObj [(''itemSectionRenderer'',
              JObj [(''contents'', JArr [JObj [(''continuationItemRenderer'', JObj [(''trigger'', JStr ''x'')])]])]),
           (''sortFilterSubMenuRenderer'',
              JObj [(''subMenuItems'',
                       JArr [JObj [(''title'', JStr ''Top''), (''serviceEndpoint'', endpoint_with ''popular'')],
                             JObj [(''title'', JStr ''Newest''), (''serviceEndpoint'', endpoint_with ''recent'')]])])]"

text \<open>
  A response that carries the given comment entities and toolbar-state payloads, as
  mutations of an entity batch update.
\<close>

definition response_with :: "json list \<Rightarrow> json list \<Rightarrow> json" where
  "response_with comments toolbar_payloads =
     JObj [(''frameworkUpdates'',
              JObj [(''entityBatchUpdate'',
                       JObj [(''mutations'',
                                JArr (map (\<lambda>c. JObj [(''payload'', JObj [(''commentEntityPayload'', c)])])
                                        comments
                                      @ map (\<lambda>t. JObj [(''payload'',
                                               JObj [(''engagementToolbarStateEntityPayload'', t)])])
                                          toolbar_payloads))])])]"

text \<open>
  Two responses: one comment with its toolbar state, hearted; and two comments, the
  second of which names a toolbar state that the response does not hold.
\<close>

definition hearted_response :: json where
  "hearted_response =
     response_with [comment_entity ''c1'' ''k1'' ''3'']
       [toolbar_payload ''k1'' (Some ''TOOLBAR_HEART_STATE_HEARTED'')]"

definition missing_state_response :: json where
  "missing_state_response =
     response_with [comment_entity ''c1'' ''k1'' ''3'', comment_entity ''c2'' ''k2'' ''7'']
       [toolbar_payload ''k1'' None]"

text \<open>
  A generator that yields the records of a list and then ends, and a rendering of a
  number as that many strokes.
\<close>

definition feed_of :: "'r list \<Rightarrow> nat \<Rightarrow> 'r pull" where
  "feed_of recs i = (if i < length recs then Yield (recs ! i) else Stop)"

definition strokes :: "nat \<Rightarrow> nat option \<Rightarrow> string" where
  "strokes c indent = replicate c CHR ''|''"

section \<open>Basic facts\<close>

lemma bind_err_Inr: "bind_err x f = Inr y \<longleftrightarrow> (\<exists>v. x = Inr v \<and> f v = Inr y)"
  by (cases x) (simp_all add: bind_err_def)

lemma bind_err_simps [simp]: "bind_err (Inl e) f = Inl e" "bind_err (Inr v) f = f v"
  by (simp_all add: bind_err_def)

lemma concat_map_butlast_last:
  "stack \<noteq> [] \<Longrightarrow> concat (map f stack) = concat (map f (butlast stack)) @ f (last stack)"
  by (induction stack) auto

lemma concat_nonempty: "concat (map g xs) \<noteq> [] \<longleftrightarrow> (\<exists>x\<in>set xs. g x \<noteq> [])"
  by (induction xs) auto

section \<open>The key search yields the outermost values\<close>

lemma mset_split_items:
  "mset (concat (map (\<lambda>kv. if fst kv = k then [snd kv] else f (snd kv)) items)) =
   mset (map snd (filter (\<lambda>kv. fst kv = k) items)) +
   mset (concat (map f (map snd (filter (\<lambda>kv. fst kv \<noteq> k) items))))"
  by (induction items) auto

lemma search_stack_mset:
  "mset (search_stack k stack) = mset (concat (map (outermost_values k) stack))"
proof (induction k stack rule: search_stack.induct)
  case (1 k stack)
  show ?case
  proof (cases "stack = []")
    case True
    then show ?thesis by (simp add: search_stack.simps)
  next
    case False
    note split = concat_map_butlast_last [OF False, of "outermost_values k"]
    show ?thesis
    proof (cases "last stack")
      case (JObj items)
      have "mset (search_stack k stack) =
            mset (map snd (filter (\<lambda>kv. fst kv = k) items)) +
            mset (search_stack k (butlast stack @ map snd (filter (\<lambda>kv. fst kv \<noteq> k) items)))"
        using False JObj by (subst search_stack.simps) simp
      also have "\<dots> = mset (map snd (filter (\<lambda>kv. fst kv = k) items)) +
            mset (concat (map (outermost_values k)
                    (butlast stack @ map snd (filter (\<lambda>kv. fst kv \<noteq> k) items))))"
        using "1.IH"(6) [OF False JObj] by simp
      also have "\<dots> = mset (concat (map (outermost_values k) stack))"
        using JObj by (simp add: split mset_split_items [of k "outermost_values k" items])
      finally show ?thesis .
    next
      case (JArr xs)
      have "mset (search_stack k stack) = mset (search_stack k (butlast stack @ xs))"
        using False JArr by (subst search_stack.simps) simp
      then show ?thesis
        using "1.IH"(5) [OF False JArr] JArr by (simp add: split)
    next
      case JNull
      have "mset (search_stack k stack) = mset (search_stack k (butlast stack))"
        using False JNull by (subst search_stack.simps) simp
      then show ?thesis
        using "1.IH"(1) [OF False JNull] JNull by (simp add: split)
    next
      case (JBool b)
      have "mset (search_stack k stack) = mset (search_stack k (butlast stack))"
        using False JBool by (subst search_stack.simps) simp
      then show ?thesis
        using "1.IH"(2) [OF False JBool] JBool by (simp add: split)
    next
      case (JNum n)
      have "mset (search_stack k stack) = mset (search_stack k (butlast stack))"
        using False JNum by (subst search_stack.simps) simp
      then show ?thesis
        using "1.IH"(3) [OF False JNum] JNum by (simp add: split)
    next
      case (JStr s)
      have "mset (search_stack k stack) = mset (search_stack k (butlast stack))"
        using False JStr by (subst search_stack.simps) simp
      then show ?thesis
        using "1.IH"(4) [OF False JStr] JStr by (simp add: split)
    qed
  qed
qed

lemma key_occurs_outermost: "key_occurs k t \<longleftrightarrow> outermost_values k t \<noteq> []"
proof (induction k t rule: outermost_values.induct)
  case (1 k items)
  have "outermost_values k (JObj items) \<noteq> [] \<longleftrightarrow>
        (\<exists>kv\<in>set items. (if fst kv = k then [snd kv] else outermost_values k (snd kv)) \<noteq> [])"
    by (simp only: outermost_values.simps concat_nonempty)
  also have "\<dots> \<longleftrightarrow> (\<exists>kv\<in>set items. fst kv = k \<or> key_occurs k (snd kv))"
    using 1 by (intro bex_cong refl) auto
  finally show ?case by (simp add: list_ex_iff)
next
  case (2 k xs)
  then show ?case by (simp add: list_ex_iff)
qed simp_all

lemma search_dict_mset: "mset (search_dict t k) = mset (outermost_values k t)"
  using search_stack_mset [of k "[t]"] by (simp add: search_dict_def)

lemma search_dict_nonempty: "search_dict t k \<noteq> [] \<longleftrightarrow> key_occurs k t"
proof -
  have "search_dict t k \<noteq> [] \<longleftrightarrow> mset (search_dict t k) \<noteq> {#}" by simp
  also have "\<dots> \<longleftrightarrow> outermost_values k t \<noteq> []" by (simp add: search_dict_mset)
  finally show ?thesis by (simp add: key_occurs_outermost)
qed

lemma search_dict_falsy: "\<not> truthy t \<Longrightarrow> search_dict t k = []"
  using search_dict_nonempty [of t k] by (cases t) auto

lemma outermost_subset: "set (outermost_values k t) \<subseteq> set (values_under k t)"
  by (induction k t rule: outermost_values.induct) auto

text \<open>
  C2, as the code has it. A value under the searched key is yielded and its inside is
  not searched, so \<open>search_dict t k\<close> yields, each as often as it occurs, the values under
  \<open>k\<close> that do not lie inside another value under \<open>k\<close>; each of them is a value under \<open>k\<close>
  somewhere in \<open>t\<close>. It yields at least one value exactly when \<open>k\<close> occurs somewhere in
  \<open>t\<close>, at any depth inside maps or sequences, and nothing for \<^verbatim>\<open>None\<close>, an empty \<^verbatim>\<open>dict\<close>
  and an empty \<^verbatim>\<open>list\<close>.
\<close>

theorem search_dict_outermost:
  "mset (search_dict t k) = mset (outermost_values k t) \<and>
   set (search_dict t k) \<subseteq> set (values_under k t) \<and>
   (search_dict t k \<noteq> [] \<longleftrightarrow> key_occurs k t) \<and>
   search_dict JNull k = [] \<and> search_dict (JObj []) k = [] \<and> search_dict (JArr []) k = []"
proof -
  have "set (search_dict t k) = set (outermost_values k t)"
    using search_dict_mset [of t k] by (rule mset_eq_setD)
  then have "set (search_dict t k) \<subseteq> set (values_under k t)"
    using outermost_subset [of k t] by simp
  moreover have "search_dict JNull k = []" "search_dict (JObj []) k = []"
    "search_dict (JArr []) k = []"
    by (simp_all add: search_dict_falsy)
  ultimately show ?thesis
    by (simp add: search_dict_mset search_dict_nonempty)
qed

theorem search_dict_outermost_witness:
  "mset (search_dict nested_tree ''a'') = mset (outermost_values ''a'' nested_tree) \<and>
   set (search_dict nested_tree ''a'') \<subseteq> set (values_under ''a'' nested_tree) \<and>
   search_dict nested_tree ''a'' = [JObj [(''a'', JNum 1)], JNum 3, JNum 2] \<and>
   key_occurs ''a'' nested_tree \<and>
   search_dict nested_tree ''c'' = [] \<and> \<not> key_occurs ''c'' nested_tree"
proof -
  have 1: "search_dict nested_tree ''a'' = [JObj [(''a'', JNum 1)], JNum 3, JNum 2]"
    by (simp add: search_dict_def nested_tree_def search_stack.simps)
  have 2: "search_dict nested_tree ''c'' = []"
    by (simp add: search_dict_def nested_tree_def search_stack.simps)
  from search_dict_outermost [of nested_tree "''a''"] search_dict_outermost [of nested_tree "''c''"]
  show ?thesis unfolding 1 2 by simp
qed

text \<open>
  C2 as stated fails: in \<^verbatim>\<open>{"a": {"a": 1}, "b": [{"a": 2}, {"a": 3}]}\<close> the value \<^verbatim>\<open>1\<close>
  stands under the key \<^verbatim>\<open>a\<close> and is not yielded.
\<close>

theorem search_dict_misses_nested_value:
  "JNum 1 \<in> set (values_under ''a'' nested_tree) \<and>
   JNum 1 \<notin> set (search_dict nested_tree ''a'')"
  by (simp add: search_dict_def nested_tree_def search_stack.simps)

section \<open>Fields of an emitted record\<close>

lemma votes_of_Inr:
  "votes_of x = Inr v \<longleftrightarrow> (\<exists>s. x = JStr s \<and> v = (if strip s \<noteq> [] then strip s else ''0''))"
  by (cases x) (auto simp: votes_of_def)

lemma heart_of_Inr:
  "heart_of x = Inr h \<longleftrightarrow>
   (\<exists>items. x = JObj items \<and>
      h = (map_of items ''heartState'' = Some (JStr ''TOOLBAR_HEART_STATE_HEARTED'')))"
  by (cases x) (auto simp: heart_of_def split: option.splits)

lemma dropWhile_all: "(\<forall>x\<in>set (dropWhile P s). P x) \<longleftrightarrow> (\<forall>x\<in>set s. P x)"
proof
  assume a: "\<forall>x\<in>set (dropWhile P s). P x"
  have "dropWhile P s = []"
  proof (rule ccontr)
    assume ne: "dropWhile P s \<noteq> []"
    then have "\<not> P (hd (dropWhile P s))" by (rule hd_dropWhile)
    moreover have "hd (dropWhile P s) \<in> set (dropWhile P s)" using ne by simp
    ultimately show False using a by blast
  qed
  then show "\<forall>x\<in>set s. P x" by (simp add: dropWhile_eq_Nil_conv)
next
  assume "\<forall>x\<in>set s. P x"
  then show "\<forall>x\<in>set (dropWhile P s). P x" by (meson set_dropWhileD)
qed

lemma strip_empty_iff: "strip s = [] \<longleftrightarrow> (\<forall>c\<in>set s. is_space c)"
  by (simp add: strip_def dropWhile_eq_Nil_conv dropWhile_all)

lemma strip_unchanged:
  assumes "s \<noteq> []" "\<not> is_space (hd s)" "\<not> is_space (last s)"
  shows "strip s = s"
proof -
  have a: "dropWhile is_space s = s" using assms by (cases s) auto
  have "hd (rev s) = last s" using assms(1) by (simp add: hd_rev)
  with assms(3) have "rev s = [] \<or> \<not> is_space (hd (rev s))" by simp
  then have b: "dropWhile is_space (rev s) = rev s" by (simp only: dropWhile_eq_self_iff)
  show ?thesis by (simp add: strip_def a b)
qed

lemma strip_ends:
  assumes "strip s \<noteq> []"
  shows "\<not> is_space (hd (strip s)) \<and> \<not> is_space (last (strip s))"
proof -
  define ys where "ys = dropWhile is_space s"
  define zs where "zs = dropWhile is_space (rev ys)"
  have s: "strip s = rev zs" by (simp add: strip_def ys_def zs_def)
  with assms have zne: "zs \<noteq> []" by simp
  then have "\<not> is_space (hd zs)" unfolding zs_def by (rule hd_dropWhile)
  then have l: "\<not> is_space (last (strip s))" using zne by (simp add: s last_rev)
  have "rev ys = takeWhile is_space (rev ys) @ zs" by (simp add: zs_def)
  then have "rev (rev ys) = rev (takeWhile is_space (rev ys) @ zs)" by simp
  then have ys: "ys = rev zs @ rev (takeWhile is_space (rev ys))" by simp
  then have yne: "ys \<noteq> []" using zne by auto
  then have "\<not> is_space (hd ys)" unfolding ys_def by (rule hd_dropWhile)
  moreover have "hd ys = hd (rev zs)" using ys zne by (metis hd_append2 rev_is_Nil_conv)
  ultimately show ?thesis using l by (simp add: s)
qed

lemma strip_eq_self_iff:
  "strip s = s \<longleftrightarrow> s = [] \<or> (\<not> is_space (hd s) \<and> \<not> is_space (last s))"
proof (cases "s = []")
  case True
  then show ?thesis by (simp add: strip_def)
next
  case False
  show ?thesis
  proof
    assume e: "strip s = s"
    with False strip_ends [of s] show "s = [] \<or> (\<not> is_space (hd s) \<and> \<not> is_space (last s))"
      by simp
  next
    assume "s = [] \<or> (\<not> is_space (hd s) \<and> \<not> is_space (last s))"
    with False show "strip s = s" by (simp add: strip_unchanged)
  qed
qed

lemma normalised_votes_unchanged_iff:
  "(if strip s \<noteq> [] then strip s else ''0'') = s \<longleftrightarrow>
   s \<noteq> [] \<and> \<not> is_space (hd s) \<and> \<not> is_space (last s)"
proof (cases "strip s = []")
  case True
  then have all: "\<forall>c\<in>set s. is_space c" by (simp add: strip_empty_iff)
  have "\<not> is_space CHR ''0''" by (simp add: is_space_def)
  with all have "s \<noteq> ''0''" by auto
  moreover have "s \<noteq> [] \<longrightarrow> is_space (hd s)" using all by simp
  ultimately show ?thesis using True by auto
next
  case False
  then have "s \<noteq> []" by (auto simp: strip_def)
  with False show ?thesis by (simp add: strip_eq_self_iff)
qed

text \<open>
  C3, as the code has it. The \<^verbatim>\<open>votes\<close> field of an emitted record is \<^verbatim>\<open>"0"\<close> when the
  raw \<^verbatim>\<open>likeCountNotliked\<close> string is empty or all whitespace, and otherwise the raw
  string without its leading and trailing whitespace. It is the raw string itself exactly
  when that string is not empty and neither begins nor ends with whitespace (whatever
  else it holds: no digits are required).
\<close>

theorem votes_stripped:
  assumes "make_result parse payments toolbar_states comment = Inr r"
  shows "\<exists>toolbar raw.
           py_getitem comment ''toolbar'' = Inr toolbar \<and>
           py_getitem toolbar ''likeCountNotliked'' = Inr (JStr raw) \<and>
           r_votes r = (if (\<forall>c\<in>set raw. is_space c) then ''0'' else strip raw) \<and>
           (r_votes r = raw \<longleftrightarrow> raw \<noteq> [] \<and> \<not> is_space (hd raw) \<and> \<not> is_space (last raw))"
proof -
  from assms obtain toolbar raw where
    t: "py_getitem comment ''toolbar'' = Inr toolbar"
    and l: "py_getitem toolbar ''likeCountNotliked'' = Inr (JStr raw)"
    and v: "r_votes r = (if strip raw \<noteq> [] then strip raw else ''0'')"
    unfolding make_result_def bind_err_Inr votes_of_Inr by auto
  from v have "r_votes r = (if (\<forall>c\<in>set raw. is_space c) then ''0'' else strip raw)"
    by (simp add: strip_empty_iff)
  moreover from v have
    "r_votes r = raw \<longleftrightarrow> raw \<noteq> [] \<and> \<not> is_space (hd raw) \<and> \<not> is_space (last raw)"
    using normalised_votes_unchanged_iff [of raw] by simp
  ultimately show ?thesis using t l by blast
qed

theorem votes_stripped_witness:
  "map_sum id r_votes
     (make_result no_parse [] [(HStr ''k1'', toolbar_payload ''k1'' None)]
        (comment_entity ''c1'' ''k1'' ''  '')) = Inr ''0'' \<and>
   map_sum id r_votes
     (make_result no_parse [] [(HStr ''k1'', toolbar_payload ''k1'' None)]
        (comment_entity ''c1'' ''k1'' ''1.2K'')) = Inr ''1.2K''"
proof -
  let ?ts = "[(HStr ''k1'', toolbar_payload ''k1'' None)]"
  obtain r where r: "make_result no_parse [] ?ts (comment_entity ''c1'' ''k1'' ''  '') = Inr r"
    by (simp add: make_result_def comment_entity_def toolbar_payload_def dict_getitem_def
        votes_of_def heart_of_def reply_of_def)
  obtain r' where r': "make_result no_parse [] ?ts (comment_entity ''c1'' ''k1'' ''1.2K'') = Inr r'"
    by (simp add: make_result_def comment_entity_def toolbar_payload_def dict_getitem_def
        votes_of_def heart_of_def reply_of_def)
  have "r_votes r = ''0''"
    using votes_stripped [OF r] by (auto simp: comment_entity_def is_space_def)
  moreover have "r_votes r' = ''1.2K''"
    using votes_stripped [OF r'] by (auto simp: comment_entity_def is_space_def)
  ultimately show ?thesis by (simp add: r r')
qed

text \<open>
  C3 as stated fails: the raw string \<^verbatim>\<open>" 5"\<close> is not whitespace only and the record's
  \<^verbatim>\<open>votes\<close> is \<^verbatim>\<open>"5"\<close>, not the raw string.
\<close>

theorem votes_changed_by_strip:
  "map_sum id r_votes
     (make_result no_parse [] [(HStr ''k1'', toolbar_payload ''k1'' None)]
        (comment_entity ''c1'' ''k1'' '' 5'')) = Inr ''5''"
  by (simp add: make_result_def comment_entity_def toolbar_payload_def dict_getitem_def
      votes_of_def heart_of_def reply_of_def strip_def is_space_def)

text \<open>
  C10. The \<^verbatim>\<open>heart\<close> field of an emitted record is true exactly when the record's
  toolbar-state entry has the key \<^verbatim>\<open>heartState\<close> with the value
  \<^verbatim>\<open>TOOLBAR_HEART_STATE_HEARTED\<close>; and for every toolbar-state entry, with the key or
  without it, computing the flag raises nothing (without the key the flag is false).
\<close>

theorem heart_flag:
  "(make_result parse payments toolbar_states comment = Inr r \<longrightarrow>
      (\<exists>properties state_key entry.
          py_getitem comment ''properties'' = Inr properties \<and>
          py_getitem properties ''toolbarStateKey'' = Inr state_key \<and>
          dict_getitem toolbar_states state_key = Inr (JObj entry) \<and>
          (r_heart r \<longleftrightarrow>
             map_of entry ''heartState'' = Some (JStr ''TOOLBAR_HEART_STATE_HEARTED'')))) \<and>
   heart_of (JObj items) =
     Inr (map_of items ''heartState'' = Some (JStr ''TOOLBAR_HEART_STATE_HEARTED'')) \<and>
   (map_of items ''heartState'' = None \<longrightarrow> heart_of (JObj items) = Inr False)"
proof -
  have "make_result parse payments toolbar_states comment = Inr r \<Longrightarrow>
      (\<exists>properties state_key entry.
          py_getitem comment ''properties'' = Inr properties \<and>
          py_getitem properties ''toolbarStateKey'' = Inr state_key \<and>
          dict_getitem toolbar_states state_key = Inr (JObj entry) \<and>
          (r_heart r \<longleftrightarrow>
             map_of entry ''heartState'' = Some (JStr ''TOOLBAR_HEART_STATE_HEARTED'')))"
    unfolding make_result_def bind_err_Inr heart_of_Inr by auto
  then show ?thesis by (simp add: heart_of_Inr)
qed

theorem heart_flag_witness:
  "map_sum id r_heart
     (make_result no_parse []
        [(HStr ''k1'', toolbar_payload ''k1'' (Some ''TOOLBAR_HEART_STATE_HEARTED''))]
        (comment_entity ''c1'' ''k1'' ''3'')) = Inr True \<and>
   map_sum id r_heart
     (make_result no_parse []
        [(HStr ''k1'', toolbar_payload ''k1'' (Some ''TOOLBAR_HEART_STATE_UNHEARTED''))]
        (comment_entity ''c1'' ''k1'' ''3'')) = Inr False \<and>
   map_sum id r_heart
     (make_result no_parse [] [(HStr ''k1'', toolbar_payload ''k1'' None)]
        (comment_entity ''c1'' ''k1'' ''3'')) = Inr False \<and>
   heart_of (toolbar_payload ''k1'' None) = Inr False"
proof -
  let ?c = "comment_entity ''c1'' ''k1'' ''3''"
  let ?h = "[(HStr ''k1'', toolbar_payload ''k1'' (Some ''TOOLBAR_HEART_STATE_HEARTED''))]"
  let ?u = "[(HStr ''k1'', toolbar_payload ''k1'' (Some ''TOOLBAR_HEART_STATE_UNHEARTED''))]"
  let ?n = "[(HStr ''k1'', toolbar_payload ''k1'' None)]"
  note defs = make_result_def comment_entity_def toolbar_payload_def dict_getitem_def
    votes_of_def heart_of_def reply_of_def
  obtain r1 where r1: "make_result no_parse [] ?h ?c = Inr r1" by (simp add: defs)
  obtain r2 where r2: "make_result no_parse [] ?u ?c = Inr r2" by (simp add: defs)
  obtain r3 where r3: "make_result no_parse [] ?n ?c = Inr r3" by (simp add: defs)
  have "r_heart r1"
    using heart_flag [of no_parse "[]" ?h ?c r1 "[]"] r1
    by (auto simp: comment_entity_def toolbar_payload_def dict_getitem_def)
  moreover have "\<not> r_heart r2"
    using heart_flag [of no_parse "[]" ?u ?c r2 "[]"] r2
    by (auto simp: comment_entity_def toolbar_payload_def dict_getitem_def)
  moreover have "\<not> r_heart r3"
    using heart_flag [of no_parse "[]" ?n ?c r3 "[]"] r3
    by (auto simp: comment_entity_def toolbar_payload_def dict_getitem_def)
  moreover have "heart_of (toolbar_payload ''k1'' None) = Inr False"
    using heart_flag [of no_parse "[]" ?n ?c r3 "[(''key'', JStr ''k1'')]"]
    by (simp add: toolbar_payload_def)
  ultimately show ?thesis by (simp add: r1 r2 r3)
qed

section \<open>The order of the continuation list\<close>

lemma fold_append_back: "fold append_back cs q = q @ cs"
  by (induction cs arbitrary: q) (simp_all add: append_back_def)

lemma process_item_discovered:
  "process_item action item q =
   bind_err (same_feed_of action item) (\<lambda>eps.
   bind_err (more_replies_of action item) (\<lambda>commands. Inr (eps @ q @ commands)))"
  by (simp add: process_item_def fold_append_back insert_front_def)

lemma process_items_discovered:
  "process_items action items q =
   bind_err (discovered_items action items) (\<lambda>fb. Inr (fst fb @ q @ snd fb))"
proof (induction items arbitrary: q)
  case Nil
  show ?case by simp
next
  case (Cons item items)
  show ?case
  proof (cases "same_feed_of action item")
    case (Inl e)
    then show ?thesis by (simp add: process_item_discovered)
  next
    case eps: (Inr eps)
    show ?thesis
    proof (cases "more_replies_of action item")
      case (Inl e)
      then show ?thesis by (simp add: process_item_discovered eps)
    next
      case commands: (Inr commands)
      show ?thesis
        by (cases "discovered_items action items")
           (simp_all add: process_item_discovered eps commands Cons.IH)
    qed
  qed
qed

lemma process_actions_discovered:
  "process_actions actions q =
   bind_err (discovered actions) (\<lambda>fb. Inr (fst fb @ q @ snd fb))"
proof (induction actions arbitrary: q)
  case Nil
  show ?case by simp
next
  case (Cons action actions)
  show ?case
  proof (cases "py_get action ''continuationItems'' (JArr [])")
    case (Inl e)
    then show ?thesis by simp
  next
    case v: (Inr v)
    show ?thesis
    proof (cases "py_iter v")
      case (Inl e)
      then show ?thesis by (simp add: v)
    next
      case items: (Inr items)
      show ?thesis
      proof (cases "discovered_items action items")
        case (Inl e)
        then show ?thesis by (simp add: v items process_items_discovered)
      next
        case fb: (Inr fb)
        show ?thesis
          by (cases "discovered actions")
             (simp_all add: v items fb process_items_discovered Cons.IH)
      qed
    qed
  qed
qed








section \<open>The retry policy of ajax_request\<close>

lemma request_of_key:
  "request_of endpoint ytcfg timeout = Inr req \<Longrightarrow>
   py_getitem ytcfg ''INNERTUBE_API_KEY'' = Inr (req_key req)"
  unfolding request_of_def bind_err_Inr by auto

lemma request_of_fields:
  "request_of endpoint ytcfg timeout = Inr req \<Longrightarrow>
   req = \<lparr>req_url = req_url req, req_key = req_key req, req_context = req_context req,
          req_continuation = req_continuation req, req_timeout = timeout\<rparr>"
  unfolding request_of_def bind_err_Inr by auto

lemma request_of_ajax:
  "request_of endpoint ytcfg timeout = Inr req \<Longrightarrow>
   ajax_request post endpoint ytcfg retries sleep timeout w =
     request_loop post (req_url req) ytcfg (req_context req) (req_continuation req)
       sleep timeout (nat retries) w"
  unfolding request_of_def bind_err_Inr ajax_request_def by auto

lemma answer_Suc: "answer post req s (Suc j) = answer post req (snd (post s req)) j"
  by (simp add: answer_def)

lemma attempts_Suc: "attempts req sleep (Suc i) = [Posted req, Slept sleep] @ attempts req sleep i"
  by (simp add: attempts_def)

lemma request_loop_step:
  assumes key: "py_getitem ytcfg ''INNERTUBE_API_KEY'' = Inr key"
    and req: "req = \<lparr>req_url = url, req_key = key, req_context = context,
                      req_continuation = token, req_timeout = timeout\<rparr>"
    and t: "transient (answer post req (server w) 0)"
  shows "request_loop post url ytcfg context token sleep timeout (Suc n) w =
         request_loop post url ytcfg context token sleep timeout n
           (w\<lparr>server := snd (post (server w) req),
              events := events w @ [Posted req, Slept sleep]\<rparr>)"
proof (cases "post (server w) req")
  case (Pair r s')
  with t have tr: "transient r" by (simp add: answer_def)
  show ?thesis
    using tr Pair key
    by (cases r) (simp_all add: req [symmetric] session_post_def time_sleep_def)
qed

lemma request_loop_transient:
  assumes key: "py_getitem ytcfg ''INNERTUBE_API_KEY'' = Inr key"
    and req: "req = \<lparr>req_url = url, req_key = key, req_context = context,
                      req_continuation = token, req_timeout = timeout\<rparr>"
  shows "\<forall>j<i. transient (answer post req (server w) j) \<Longrightarrow>
         request_loop post url ytcfg context token sleep timeout (i + n) w =
         request_loop post url ytcfg context token sleep timeout n
           (w\<lparr>server := server_after post req (server w) i,
              events := events w @ attempts req sleep i\<rparr>)"
proof (induction i arbitrary: w)
  case 0
  show ?case by (simp add: attempts_def)
next
  case (Suc i)
  let ?w1 = "w\<lparr>server := snd (post (server w) req),
              events := events w @ [Posted req, Slept sleep]\<rparr>"
  from Suc.prems have t0: "transient (answer post req (server w) 0)" by blast
  have "\<forall>j<i. transient (answer post req (server ?w1) j)"
    using Suc.prems by (auto simp: answer_Suc [symmetric])
  from Suc.IH [OF this] request_loop_step [OF key req t0, of sleep "i + n"]
  show ?case by (simp add: attempts_Suc)
qed


lemma server_after_Suc: "server_after post req s (Suc i) = snd (post (server_after post req s i) req)"
  by (induction i arbitrary: s) simp_all

lemma request_loop_final:
  assumes key: "py_getitem ytcfg ''INNERTUBE_API_KEY'' = Inr key"
    and req: "req = \<lparr>req_url = url, req_key = key, req_context = context,
                      req_continuation = token, req_timeout = timeout\<rparr>"
    and a: "answer post req (server w) 0 = Response status body"
    and st: "status = 200 \<or> status = 403 \<or> status = 413"
  shows "request_loop post url ytcfg context token sleep timeout (Suc n) w =
         ((if status = 200 then (case body of None \<Rightarrow> Inl JSONDecodeError | Some j \<Rightarrow> Inr j)
           else Inr (JObj [])),
          w\<lparr>server := snd (post (server w) req), events := events w @ [Posted req]\<rparr>)"
proof (cases "post (server w) req")
  case (Pair r s')
  with a have r: "r = Response status body" by (simp add: answer_def)
  show ?thesis
    using st Pair key
    by (cases body) (auto simp: r req [symmetric] session_post_def)
qed

lemma ajax_request_answered:
  assumes r: "request_of endpoint ytcfg timeout = Inr req"
    and i: "i < nat retries"
    and t: "\<forall>j<i. transient (answer post req (server w) j)"
    and a: "answer post req (server w) i = Response status body"
    and st: "status = 200 \<or> status = 403 \<or> status = 413"
  shows "ajax_request post endpoint ytcfg retries sleep timeout w =
         ((if status = 200 then (case body of None \<Rightarrow> Inl JSONDecodeError | Some j \<Rightarrow> Inr j)
           else Inr (JObj [])),
          w\<lparr>server := server_after post req (server w) (Suc i),
            events := events w @ attempts req sleep i @ [Posted req]\<rparr>)"
proof -
  note key = request_of_key [OF r]
  note req = request_of_fields [OF r]
  note ro = request_of_ajax [OF r, of post retries sleep w]
  from i obtain m where m: "nat retries = i + Suc m"
    by (metis less_imp_Suc_add add_Suc_right)
  let ?wi = "w\<lparr>server := server_after post req (server w) i,
                events := events w @ attempts req sleep i\<rparr>"
  have a': "answer post req (server ?wi) 0 = Response status body"
    using a by (simp add: answer_def)
  have "ajax_request post endpoint ytcfg retries sleep timeout w =
        request_loop post (req_url req) ytcfg (req_context req) (req_continuation req)
          sleep timeout (i + Suc m) w"
    by (simp only: ro m)
  also have "\<dots> =
        request_loop post (req_url req) ytcfg (req_context req) (req_continuation req)
          sleep timeout (Suc m) ?wi"
    by (rule request_loop_transient [OF key req t])
  also have "\<dots> = ((if status = 200 then (case body of None \<Rightarrow> Inl JSONDecodeError | Some j \<Rightarrow> Inr j)
           else Inr (JObj [])),
          ?wi\<lparr>server := snd (post (server ?wi) req), events := events ?wi @ [Posted req]\<rparr>)"
    by (rule request_loop_final [OF key req a' st])
  finally show ?thesis by (simp add: server_after_Suc del: server_after.simps)
qed

lemma ajax_request_exhausted:
  assumes r: "request_of endpoint ytcfg timeout = Inr req"
    and t: "\<forall>j<nat retries. transient (answer post req (server w) j)"
  shows "ajax_request post endpoint ytcfg retries sleep timeout w =
         (Inr JNull,
          w\<lparr>server := server_after post req (server w) (nat retries),
            events := events w @ attempts req sleep (nat retries)\<rparr>)"
proof -
  note key = request_of_key [OF r]
  note req = request_of_fields [OF r]
  note ro = request_of_ajax [OF r, of post retries sleep w]
  have "request_loop post (req_url req) ytcfg (req_context req) (req_continuation req)
          sleep timeout (nat retries + 0) w =
        request_loop post (req_url req) ytcfg (req_context req) (req_continuation req)
          sleep timeout 0
          (w\<lparr>server := server_after post req (server w) (nat retries),
             events := events w @ attempts req sleep (nat retries)\<rparr>)"
    by (rule request_loop_transient [OF key req t])
  then show ?thesis by (simp add: ro)
qed

lemma request_loop_posts:
  "posts (events (snd (request_loop post url ytcfg context token sleep timeout n w)))
   \<le> posts (events w) + n"
proof (induction n arbitrary: w)
  case 0
  show ?case by simp
next
  case (Suc n)
  show ?case
  proof (cases "py_getitem ytcfg ''INNERTUBE_API_KEY''")
    case (Inl e)
    then show ?thesis by simp
  next
    case (Inr key)
    let ?req = "\<lparr>req_url = url, req_key = key, req_context = context,
                   req_continuation = token, req_timeout = timeout\<rparr>"
    obtain r s' where p: "post (server w) ?req = (r, s')" by (cases "post (server w) ?req")
    let ?w' = "w\<lparr>server := s', events := events w @ [Posted ?req]\<rparr>"
    have sp: "session_post post ?req w = (r, ?w')" by (simp add: session_post_def p)
    have w': "posts (events ?w') = Suc (posts (events w))" by (simp add: posts_def)
    have again: "posts (events (snd (request_loop post url ytcfg context token sleep timeout n
                   (time_sleep sleep ?w')))) \<le> posts (events w) + Suc n"
      using Suc.IH [of "time_sleep sleep ?w'"] by (simp add: time_sleep_def posts_def)
    show ?thesis
    proof (cases r)
      case (Response status body)
      then show ?thesis
        using again w' by (cases body) (auto simp: Inr sp)
    next
      case Timeout
      then show ?thesis using again by (simp add: Inr sp)
    next
      case Failure
      then show ?thesis using w' by (simp add: Inr sp)
    qed
  qed
qed

lemma ajax_request_posts:
  "posts (events (snd (ajax_request post endpoint ytcfg retries sleep timeout w)))
   \<le> posts (events w) + nat retries"
  unfolding ajax_request_def
  by (auto split: sum.splits simp: request_loop_posts)

lemma page_loop_break:
  assumes "continuations \<noteq> []"
    and "ajax_request_default post (last continuations) ytcfg w = (Inr response, w')"
    and "\<not> truthy response"
  shows "page_loop post parse ytcfg sleep yielded continuations w = Some ((yielded, Done), w')"
  using assms by (subst page_loop.simps) (simp add: page_body_def py_pop_def)

text \<open>
  C5. For a call of \<^verbatim>\<open>ajax_request\<close> whose endpoint and \<^verbatim>\<open>ytcfg\<close> hold what it reads:
  if the attempts before attempt \<open>i\<close> (of at most \<^verbatim>\<open>retries\<close>) were transient, each was
  followed by one sleep of \<^verbatim>\<open>sleep\<close> seconds, and a status 200 at attempt \<open>i\<close> returns the
  parsed body and a status 403 or 413 returns \<^verbatim>\<open>{}\<close>, with no further POST and no further
  sleep; a timeout is transient; if all \<^verbatim>\<open>retries\<close> attempts are transient the call
  returns \<^verbatim>\<open>None\<close>; no call makes more than \<^verbatim>\<open>retries\<close> POSTs, and the calls of this file
  (\<^verbatim>\<open>retries=5\<close>) make at most 5; and when the call for the continuation just taken
  returns \<^verbatim>\<open>None\<close> or \<^verbatim>\<open>{}\<close>, the pagination loop ends as a generator that is exhausted,
  with what it had yielded and without an exception.
\<close>

theorem ajax_request_policy:
  assumes "request_of endpoint ytcfg timeout = Inr req"
  shows
    "(\<forall>i body.
        i < nat retries \<and> (\<forall>j<i. transient (answer post req (server w) j)) \<and>
        answer post req (server w) i = Response 200 (Some body) \<longrightarrow>
        ajax_request post endpoint ytcfg retries sleep timeout w =
          (Inr body,
           w\<lparr>server := server_after post req (server w) (Suc i),
             events := events w @ attempts req sleep i @ [Posted req]\<rparr>)) \<and>
     (\<forall>i status body.
        i < nat retries \<and> (\<forall>j<i. transient (answer post req (server w) j)) \<and>
        answer post req (server w) i = Response status body \<and> (status = 403 \<or> status = 413) \<longrightarrow>
        ajax_request post endpoint ytcfg retries sleep timeout w =
          (Inr (JObj []),
           w\<lparr>server := server_after post req (server w) (Suc i),
             events := events w @ attempts req sleep i @ [Posted req]\<rparr>)) \<and>
     ((\<forall>j<nat retries. transient (answer post req (server w) j)) \<longrightarrow>
        ajax_request post endpoint ytcfg retries sleep timeout w =
          (Inr JNull,
           w\<lparr>server := server_after post req (server w) (nat retries),
             events := events w @ attempts req sleep (nat retries)\<rparr>)) \<and>
     transient Timeout \<and>
     posts (events (snd (ajax_request post endpoint ytcfg retries sleep timeout w)))
       \<le> posts (events w) + nat retries \<and>
     posts (events (snd (ajax_request_default post endpoint ytcfg w))) \<le> posts (events w) + 5 \<and>
     (\<forall>continuations response w'.
        continuations \<noteq> [] \<and>
        ajax_request_default post (last continuations) ytcfg w = (Inr response, w') \<and>
        \<not> truthy response \<longrightarrow>
        page_loop post parse ytcfg pause yielded continuations w = Some ((yielded, Done), w'))"
proof -
  have ok: "ajax_request post endpoint ytcfg retries sleep timeout w =
          (Inr body,
           w\<lparr>server := server_after post req (server w) (Suc i),
             events := events w @ attempts req sleep i @ [Posted req]\<rparr>)"
    if "i < nat retries" "\<forall>j<i. transient (answer post req (server w) j)"
      "answer post req (server w) i = Response 200 (Some body)" for i body
    using ajax_request_answered [OF assms that(1) that(2) that(3)] by simp
  have gone: "ajax_request post endpoint ytcfg retries sleep timeout w =
          (Inr (JObj []),
           w\<lparr>server := server_after post req (server w) (Suc i),
             events := events w @ attempts req sleep i @ [Posted req]\<rparr>)"
    if "i < nat retries" "\<forall>j<i. transient (answer post req (server w) j)"
      "answer post req (server w) i = Response status body" "status = 403 \<or> status = 413"
    for i status body
    using ajax_request_answered [OF assms that(1) that(2) that(3)] that(4) by auto
  have five: "posts (events (snd (ajax_request_default post endpoint ytcfg w)))
              \<le> posts (events w) + 5"
    using ajax_request_posts [of post endpoint ytcfg 5 20 60 w]
    by (simp add: ajax_request_default_def)
  have c1: "\<forall>i body.
        i < nat retries \<and> (\<forall>j<i. transient (answer post req (server w) j)) \<and>
        answer post req (server w) i = Response 200 (Some body) \<longrightarrow>
        ajax_request post endpoint ytcfg retries sleep timeout w =
          (Inr body,
           w\<lparr>server := server_after post req (server w) (Suc i),
             events := events w @ attempts req sleep i @ [Posted req]\<rparr>)"
    using ok by blast
  have c2: "\<forall>i status body.
        i < nat retries \<and> (\<forall>j<i. transient (answer post req (server w) j)) \<and>
        answer post req (server w) i = Response status body \<and> (status = 403 \<or> status = 413) \<longrightarrow>
        ajax_request post endpoint ytcfg retries sleep timeout w =
          (Inr (JObj []),
           w\<lparr>server := server_after post req (server w) (Suc i),
             events := events w @ attempts req sleep i @ [Posted req]\<rparr>)"
    using gone by blast
  have c3: "(\<forall>j<nat retries. transient (answer post req (server w) j)) \<longrightarrow>
        ajax_request post endpoint ytcfg retries sleep timeout w =
          (Inr JNull,
           w\<lparr>server := server_after post req (server w) (nat retries),
             events := events w @ attempts req sleep (nat retries)\<rparr>)"
    using ajax_request_exhausted [OF assms, of retries post w sleep] by blast
  have c4: "transient Timeout" by simp
  have c5: "posts (events (snd (ajax_request post endpoint ytcfg retries sleep timeout w)))
       \<le> posts (events w) + nat retries"
    by (rule ajax_request_posts)
  have c7: "\<forall>continuations response w'.
        continuations \<noteq> [] \<and>
        ajax_request_default post (last continuations) ytcfg w = (Inr response, w') \<and>
        \<not> truthy response \<longrightarrow>
        page_loop post parse ytcfg pause yielded continuations w = Some ((yielded, Done), w')"
    using page_loop_break [of _ post ytcfg w _ _ parse pause yielded] by blast
  show ?thesis by (intro conjI c1 c2 c3 c4 c5 five c7)
qed

theorem ajax_request_policy_witness:
  "ajax_request scripted (endpoint_with ''page2'') ytcfg_ok 5 20 60
     \<lparr>server = [Timeout, Response 500 None, Response 200 (Some (JObj [(''x'', JNum 1)]))],
      events = []\<rparr> =
     (Inr (JObj [(''x'', JNum 1)]),
      \<lparr>server = [],
       events = [Posted (request_for ''page2''), Slept 20, Posted (request_for ''page2''),
                 Slept 20, Posted (request_for ''page2'')]\<rparr>) \<and>
   ajax_request scripted (endpoint_with ''page2'') ytcfg_ok 5 20 60
     \<lparr>server = [Response 403 None, Response 200 (Some (JObj [(''x'', JNum 1)]))], events = []\<rparr> =
     (Inr (JObj []),
      \<lparr>server = [Response 200 (Some (JObj [(''x'', JNum 1)]))],
       events = [Posted (request_for ''page2'')]\<rparr>) \<and>
   ajax_request scripted (endpoint_with ''page2'') ytcfg_ok 5 20 60 \<lparr>server = [], events = []\<rparr> =
     (Inr JNull,
      \<lparr>server = [],
       events = attempts (request_for ''page2'') 20 5\<rparr>) \<and>
   page_loop scripted no_parse ytcfg_ok (1 / 10) [] [endpoint_with ''page2'']
     \<lparr>server = [], events = []\<rparr> =
     Some (([], Done), \<lparr>server = [], events = attempts (request_for ''page2'') 20 5\<rparr>)"
proof -
  let ?r = "request_for ''page2''"
  let ?e = "endpoint_with ''page2''"
  have ro: "request_of ?e ytcfg_ok 60 = Inr ?r"
    by (simp add: request_of_def endpoint_with_def ytcfg_ok_def request_for_def)
  note evals = answer_def scripted_def less_Suc_eq eval_nat_numeral attempts_def
  let ?w1 = "\<lparr>server = [Timeout, Response 500 None, Response 200 (Some (JObj [(''x'', JNum 1)]))],
      events = []\<rparr>"
  let ?w2 = "\<lparr>server = [Response 403 None, Response 200 (Some (JObj [(''x'', JNum 1)]))], events = []\<rparr>"
  let ?w3 = "\<lparr>server = ([] :: http list), events = []\<rparr>"
  have 1: "ajax_request scripted ?e ytcfg_ok 5 20 60 ?w1 =
     (Inr (JObj [(''x'', JNum 1)]),
      \<lparr>server = [],
       events = [Posted ?r, Slept 20, Posted ?r, Slept 20, Posted ?r]\<rparr>)"
    using ajax_request_policy [OF ro, of 5 scripted ?w1 20, THEN conjunct1, rule_format,
        of 2 "JObj [(''x'', JNum 1)]"]
    by (simp add: evals)
  have 2: "ajax_request scripted ?e ytcfg_ok 5 20 60 ?w2 =
     (Inr (JObj []),
      \<lparr>server = [Response 200 (Some (JObj [(''x'', JNum 1)]))],
       events = [Posted ?r]\<rparr>)"
    using ajax_request_policy [OF ro, of 5 scripted ?w2 20, THEN conjunct2, THEN conjunct1,
        rule_format, of 0 403 None]
    by (simp add: evals)
  have all_timeout: "answer scripted ?r [] j = Timeout" for j
    by (induction j) (simp_all add: answer_def scripted_def)
  have after: "server_after scripted ?r [] j = []" for j
    by (induction j) (simp_all add: scripted_def)
  have 3: "ajax_request scripted ?e ytcfg_ok 5 20 60 ?w3 =
     (Inr JNull, \<lparr>server = [], events = attempts ?r 20 5\<rparr>)"
    using ajax_request_policy [OF ro, of 5 scripted ?w3 20, THEN conjunct2, THEN conjunct2,
        THEN conjunct1]
    by (simp add: all_timeout after)
  have 4: "page_loop scripted no_parse ytcfg_ok (1 / 10) [] [?e] ?w3 =
     Some (([], Done), \<lparr>server = [], events = attempts ?r 20 5\<rparr>)"
    using ajax_request_policy [OF ro, of 5 scripted ?w3 20 no_parse "1 / 10" "[]",
        THEN conjunct2, THEN conjunct2, THEN conjunct2, THEN conjunct2, THEN conjunct2,
        THEN conjunct2, rule_format, of "[?e]" JNull "\<lparr>server = [], events = attempts ?r 20 5\<rparr>"]
      3
    by (simp add: ajax_request_default_def)
  show ?thesis using 1 2 3 4 by (intro conjI)
qed

section \<open>Sort resolution\<close>

lemma list_index_nonneg:
  "0 \<le> i \<Longrightarrow> list_index xs i = (if i < int (length xs) then Inr (xs ! nat i) else Inl IndexError)"
  by (simp add: list_index_def)

lemma list_index_negative:
  "i < 0 \<Longrightarrow>
   list_index xs i =
     (if - int (length xs) \<le> i then Inr (xs ! nat (int (length xs) + i)) else Inl IndexError)"
  by (simp add: list_index_def)

text \<open>
  For a sort menu that is a list and a sort index that is not negative, the resolution
  raises its \<^verbatim>\<open>RuntimeError\<close> exactly when the menu is empty (also after the retry) or the
  index is not below the number of entries, and otherwise the list of continuations is
  the one endpoint of the entry at the index.
\<close>

lemma resolve_sort_nonneg:
  assumes "sort_menu_of post ytcfg data w = (Inr (JArr entries), w')" and "0 \<le> sort_by"
  shows "resolve_sort post ytcfg data sort_by w =
           (if entries = [] \<or> int (length entries) \<le> sort_by then (Inl SortError, w')
            else (case py_getitem (entries ! nat sort_by) ''serviceEndpoint'' of
                    Inl e \<Rightarrow> (Inl e, w')
                  | Inr endpoint \<Rightarrow> (Inr [endpoint], w')))"
  using assms by (auto simp: resolve_sort_def list_index_nonneg split: sum.splits)

text \<open>
  A negative sort index passes the test \<^verbatim>\<open>sort_by >= len(sort_menu)\<close>, and
  \<^verbatim>\<open>sort_menu[sort_by]\<close> counts it from the end of the menu.
\<close>

lemma resolve_sort_negative:
  assumes "sort_menu_of post ytcfg data w = (Inr (JArr entries), w')"
    and "sort_by < 0" and "entries \<noteq> []"
  shows "resolve_sort post ytcfg data sort_by w =
           (if sort_by < - int (length entries) then (Inl IndexError, w')
            else (case py_getitem (entries ! nat (int (length entries) + sort_by))
                         ''serviceEndpoint'' of
                    Inl e \<Rightarrow> (Inl e, w')
                  | Inr endpoint \<Rightarrow> (Inr [endpoint], w')))"
  using assms by (auto simp: resolve_sort_def list_index_negative split: sum.splits)

text \<open>
  C6 at the sort index \<open>-1\<close>, on a page whose menu has the entries 0 and 1. The index 2
  is refused with the \<^verbatim>\<open>RuntimeError\<close>. The index \<open>-1\<close> is out of the range of the entries
  as well, and the resolution does not fail: it seeds the list with the endpoint of the
  last entry, and the generator runs to its normal end on the continuation of that entry.
\<close>

theorem resolve_sort_minus_one:
  "resolve_sort scripted ytcfg_ok two_entry_page 2 \<lparr>server = [], events = []\<rparr> =
     (Inl SortError, \<lparr>server = [], events = []\<rparr>) \<and>
   resolve_sort scripted ytcfg_ok two_entry_page (- 1) \<lparr>server = [], events = []\<rparr> =
     (Inr [endpoint_with ''recent''], \<lparr>server = [], events = []\<rparr>) \<and>
   map_option (\<lambda>x. (map r_cid (fst (fst x)), snd (fst x), events (snd x)))
     (comments_from_page scripted no_parse ytcfg_ok two_entry_page (- 1) None (1 / 10)
        \<lparr>server = [Response 200 (Some hearted_response)], events = []\<rparr>) =
     Some ([JStr ''c1''], Done, [Posted (request_for ''recent''), Slept (1 / 10)])"
proof -
  note defs = resolve_sort_def sort_menu_of_def find_sort_menu_def two_entry_page_def
    search_dict_def search_stack.simps next_or_def list_index_def
  have "resolve_sort scripted ytcfg_ok two_entry_page 2 \<lparr>server = [], events = []\<rparr> =
     (Inl SortError, \<lparr>server = [], events = []\<rparr>)"
    by (simp add: defs)
  moreover have
    "resolve_sort scripted ytcfg_ok two_entry_page (- 1) \<lparr>server = [], events = []\<rparr> =
     (Inr [endpoint_with ''recent''], \<lparr>server = [], events = []\<rparr>)"
    by (simp add: defs)
  moreover have
    "map_option (\<lambda>x. (map r_cid (fst (fst x)), snd (fst x), events (snd x)))
     (comments_from_page scripted no_parse ytcfg_ok two_entry_page (- 1) None (1 / 10)
        \<lparr>server = [Response 200 (Some hearted_response)], events = []\<rparr>) =
     Some ([JStr ''c1''], Done, [Posted (request_for ''recent''), Slept (1 / 10)])"
    by code_simp
  ultimately show ?thesis by (intro conjI)
qed

section \<open>One turn of the pagination loop\<close>

lemma process_actions_isl:
  "isl (process_actions actions q) = isl (discovered actions)"
  by (cases "discovered actions") (simp_all add: process_actions_discovered)

lemma page_body_Inr:
  assumes ne: "continuations \<noteq> []"
    and ajax: "ajax_request_default post (last continuations) ytcfg w = (Inr response, w')"
  shows "fst (page_body post parse ytcfg sleep continuations w) = iteration_records parse response"
proof -
  have pop: "py_pop continuations = Inr (last continuations, butlast continuations)"
    using ne by (simp add: py_pop_def)
  show ?thesis
  proof (cases "\<not> truthy response \<or> external_error response \<noteq> None")
    case True
    then show ?thesis
      by (auto simp: page_body_def pop ajax iteration_records_def)
  next
    case False
    then have t: "truthy response" and x: "external_error response = None" by auto
    show ?thesis
    proof (cases "process_actions (actions_of response) (butlast continuations)")
      case (Inl e)
      then have "isl (discovered (actions_of response))"
        using process_actions_isl [of "actions_of response" "butlast continuations"] by simp
      then show ?thesis
        by (simp add: page_body_def pop ajax iteration_records_def t x Inl)
    next
      case (Inr q)
      then have "\<not> isl (discovered (actions_of response))"
        using process_actions_isl [of "actions_of response" "butlast continuations"] by simp
      then show ?thesis
        by (cases "response_records parse response")
           (auto simp: page_body_def pop ajax iteration_records_def t x Inr split: option.splits)
    qed
  qed
qed

lemma emit_comments_sound:
  "r \<in> set (fst (emit_comments parse payments toolbar_states comments)) \<Longrightarrow>
   \<exists>c\<in>set comments. make_result parse payments toolbar_states c = Inr r"
proof (induction comments)
  case Nil
  then show ?case by simp
next
  case (Cons c cs)
  then show ?case
    by (cases "make_result parse payments toolbar_states c";
        cases "emit_comments parse payments toolbar_states cs") auto
qed

lemma iteration_records_sound:
  assumes "r \<in> set (iteration_records parse response)"
  shows "\<exists>payments toolbar_states comment.
           payments_of response = Inr payments \<and>
           toolbar_states_of response = Inr toolbar_states \<and>
           comment \<in> set (comments_of response) \<and>
           make_result parse payments toolbar_states comment = Inr r"
proof -
  from assms have r: "r \<in> set (fst (response_records parse response))"
    by (auto simp: iteration_records_def split: if_splits)
  then obtain payments where p: "payments_of response = Inr payments"
    by (cases "payments_of response") (auto simp: response_records_def)
  from r p obtain toolbar_states where t: "toolbar_states_of response = Inr toolbar_states"
    by (cases "toolbar_states_of response") (auto simp: response_records_def)
  from r p t have "r \<in> set (fst (emit_comments parse payments toolbar_states (comments_of response)))"
    by (simp add: response_records_def)
  from emit_comments_sound [OF this] p t show ?thesis by blast
qed

lemma emit_comments_fail:
  assumes "make_result parse payments toolbar_states comment = Inl e"
  shows "\<exists>e'. emit_comments parse payments toolbar_states (before @ comment # after) =
           (fst (emit_comments parse payments toolbar_states before), Some e')"
proof (induction before)
  case Nil
  show ?case by (simp add: assms)
next
  case (Cons c cs)
  then obtain e' where
    "emit_comments parse payments toolbar_states (cs @ comment # after) =
       (fst (emit_comments parse payments toolbar_states cs), Some e')" by blast
  then show ?case
    by (cases "make_result parse payments toolbar_states c";
        cases "emit_comments parse payments toolbar_states cs") auto
qed

lemma emit_comments_length:
  "length (fst (emit_comments parse payments toolbar_states comments)) \<le> length comments"
proof (induction comments)
  case Nil
  show ?case by simp
next
  case (Cons c cs)
  then show ?case
    by (cases "make_result parse payments toolbar_states c";
        cases "emit_comments parse payments toolbar_states cs") auto
qed

lemma make_result_missing_state:
  assumes "py_getitem comment ''properties'' = Inr properties"
    and "py_getitem properties ''toolbarStateKey'' = Inr state_key"
    and "hashkey state_key = Inr k"
    and "map_of toolbar_states k = None"
  shows "\<exists>e. make_result parse payments toolbar_states comment = Inl e"
proof (cases "make_result parse payments toolbar_states comment")
  case (Inl e)
  then show ?thesis by blast
next
  case (Inr r)
  then have "\<exists>v. dict_getitem toolbar_states state_key = Inr v"
    using assms(1,2) unfolding make_result_def bind_err_Inr by auto
  with assms(3,4) show ?thesis by (simp add: dict_getitem_def)
qed


text \<open>
  C7. Whatever the list of continuations, the world, \<^verbatim>\<open>ytcfg\<close> and the turns before, the
  records that a turn of the pagination loop yields are a function of the response that
  the turn received; and each of them is built from a comment entity of that response,
  with the payments and the toolbar states that are computed from that same response.
\<close>

theorem reconciliation_response_scoped:
  "(continuations \<noteq> [] \<and>
    ajax_request_default post (last continuations) ytcfg w = (Inr response, w') \<longrightarrow>
      fst (page_body post parse ytcfg sleep continuations w) = iteration_records parse response) \<and>
   (\<forall>r\<in>set (iteration_records parse response).
      \<exists>payments toolbar_states comment.
        payments_of response = Inr payments \<and>
        toolbar_states_of response = Inr toolbar_states \<and>
        comment \<in> set (comments_of response) \<and>
        make_result parse payments toolbar_states comment = Inr r)"
  using page_body_Inr [of continuations post ytcfg w response w' parse sleep]
    iteration_records_sound [of _ parse response]
  by blast

lemma page_body_missing_state:
  assumes ne: "continuations \<noteq> []"
    and ajax: "ajax_request_default post (last continuations) ytcfg w = (Inr response, w')"
    and ts: "toolbar_states_of response = Inr toolbar_states"
    and cs: "comments_of response = before @ comment # after"
    and p: "py_getitem comment ''properties'' = Inr properties"
    and sk: "py_getitem properties ''toolbarStateKey'' = Inr state_key"
    and k: "hashkey state_key = Inr k"
    and missing: "map_of toolbar_states k = None"
  shows "\<exists>rs e. page_body post parse ytcfg sleep continuations w = (rs, Raise e, w') \<and>
           length rs \<le> length before \<and>
           (\<forall>r\<in>set rs. \<exists>payments. \<exists>c\<in>set before.
               make_result parse payments toolbar_states c = Inr r)"
proof -
  have pop: "py_pop continuations = Inr (last continuations, butlast continuations)"
    using ne by (simp add: py_pop_def)
  have "search_dict response ''commentEntityPayload'' \<noteq> []"
    using cs by (auto simp: comments_of_def)
  then have t: "truthy response" using search_dict_falsy by blast
  show ?thesis
  proof (cases "external_error response")
    case (Some e)
    then show ?thesis by (simp add: page_body_def pop ajax t)
  next
    case None
    show ?thesis
    proof (cases "process_actions (actions_of response) (butlast continuations)")
      case (Inl e)
      then show ?thesis by (simp add: page_body_def pop ajax t None)
    next
      case (Inr q)
      show ?thesis
      proof (cases "payments_of response")
        case (Inl e)
        then show ?thesis
          by (simp add: page_body_def pop ajax t None Inr response_records_def)
      next
        case payments: (Inr payments)
        obtain e where "make_result parse payments toolbar_states comment = Inl e"
          using make_result_missing_state [OF p sk k missing] by blast
        from emit_comments_fail [OF this, of before after] obtain e' where
          e': "emit_comments parse payments toolbar_states (before @ comment # after) =
               (fst (emit_comments parse payments toolbar_states before), Some e')" by blast
        let ?rs = "fst (emit_comments parse payments toolbar_states before)"
        have "page_body post parse ytcfg sleep continuations w = (?rs, Raise e', w')"
          by (simp add: page_body_def pop ajax t None Inr response_records_def payments ts cs e')
        moreover have "length ?rs \<le> length before" by (rule emit_comments_length)
        moreover have "\<forall>r\<in>set ?rs. \<exists>payments. \<exists>c\<in>set before.
               make_result parse payments toolbar_states c = Inr r"
          using emit_comments_sound [of _ parse payments toolbar_states before] by blast
        ultimately show ?thesis by blast
      qed
    qed
  qed
qed

text \<open>
  C4. If a response that the pagination loop receives holds a comment entity whose
  toolbar-state key is not a key of the toolbar states of that same response, the
  generator raises: it yields records for entities that come before that one at most
  (none for it, none for a later one), and then ends with an exception, not as an
  exhausted generator.
\<close>

theorem missing_toolbar_state_aborts:
  assumes "continuations \<noteq> []"
    and "ajax_request_default post (last continuations) ytcfg w = (Inr response, w')"
    and "toolbar_states_of response = Inr toolbar_states"
    and "comments_of response = before @ comment # after"
    and "py_getitem comment ''properties'' = Inr properties"
    and "py_getitem properties ''toolbarStateKey'' = Inr state_key"
    and "hashkey state_key = Inr k"
    and "map_of toolbar_states k = None"
  shows "\<exists>rs e.
           page_loop post parse ytcfg sleep yielded continuations w =
             Some ((yielded @ rs, Failed e), w') \<and>
           length rs \<le> length before \<and>
           (\<forall>r\<in>set rs. \<exists>payments. \<exists>c\<in>set before.
               make_result parse payments toolbar_states c = Inr r)"
proof -
  from page_body_missing_state [OF assms, where parse = parse and sleep = sleep] obtain rs e where
    b: "page_body post parse ytcfg sleep continuations w = (rs, Raise e, w')"
    and l: "length rs \<le> length before"
    and s: "\<forall>r\<in>set rs. \<exists>payments. \<exists>c\<in>set before.
               make_result parse payments toolbar_states c = Inr r"
    by blast
  have "page_loop post parse ytcfg sleep yielded continuations w =
          Some ((yielded @ rs, Failed e), w')"
    using assms(1) by (subst page_loop.simps) (simp add: b)
  with l s show ?thesis by blast
qed

lemma ajax_scripted_200:
  "ajax_request_default scripted (endpoint_with token) ytcfg_ok
     \<lparr>server = Response 200 (Some r) # rest, events = es\<rparr> =
   (Inr r, \<lparr>server = rest, events = es @ [Posted (request_for token)]\<rparr>)"
  by (simp add: ajax_request_default_def ajax_request_def endpoint_with_def ytcfg_ok_def
      request_for_def session_post_def scripted_def eval_nat_numeral)

theorem reconciliation_response_scoped_witness:
  "fst (page_body scripted no_parse ytcfg_ok (1 / 10) [endpoint_with ''p1'']
          \<lparr>server = [Response 200 (Some hearted_response)], events = []\<rparr>) =
     iteration_records no_parse hearted_response \<and>
   fst (page_body scripted no_parse ytcfg_ok 5 [endpoint_with ''p0'', endpoint_with ''p2'']
          \<lparr>server = [Response 200 (Some hearted_response), Timeout],
           events = [Slept 3]\<rparr>) =
     iteration_records no_parse hearted_response \<and>
   map r_cid (iteration_records no_parse hearted_response) = [JStr ''c1''] \<and>
   map r_heart (iteration_records no_parse hearted_response) = [True]"
proof -
  note t = reconciliation_response_scoped [where parse = no_parse and response = hearted_response]
  have 1: "fst (page_body scripted no_parse ytcfg_ok (1 / 10) [endpoint_with ''p1'']
          \<lparr>server = [Response 200 (Some hearted_response)], events = []\<rparr>) =
     iteration_records no_parse hearted_response"
    using t [of "[endpoint_with ''p1'']" scripted ytcfg_ok
        "\<lparr>server = [Response 200 (Some hearted_response)], events = []\<rparr>"
        "\<lparr>server = [], events = [Posted (request_for ''p1'')]\<rparr>" "1 / 10"]
    by (simp add: ajax_scripted_200)
  have 2: "fst (page_body scripted no_parse ytcfg_ok 5 [endpoint_with ''p0'', endpoint_with ''p2'']
          \<lparr>server = [Response 200 (Some hearted_response), Timeout],
           events = [Slept 3]\<rparr>) =
     iteration_records no_parse hearted_response"
    using t [of "[endpoint_with ''p0'', endpoint_with ''p2'']" scripted ytcfg_ok
        "\<lparr>server = [Response 200 (Some hearted_response), Timeout], events = [Slept 3]\<rparr>"
        "\<lparr>server = [Timeout], events = [Slept 3, Posted (request_for ''p2'')]\<rparr>" 5]
    by (simp add: ajax_scripted_200)
  have 3: "map r_cid (iteration_records no_parse hearted_response) = [JStr ''c1'']"
    "map r_heart (iteration_records no_parse hearted_response) = [True]"
    by code_simp+
  from 1 2 3 show ?thesis by (intro conjI)
qed

theorem missing_toolbar_state_aborts_witness:
  "(\<exists>rs e.
      page_loop scripted no_parse ytcfg_ok (1 / 10) [] [endpoint_with ''p1'']
        \<lparr>server = [Response 200 (Some missing_state_response)], events = []\<rparr> =
        Some ((rs, Failed e), \<lparr>server = [], events = [Posted (request_for ''p1'')]\<rparr>) \<and>
      length rs \<le> 1) \<and>
   map_option (\<lambda>x. (map r_cid (fst (fst x)), snd (fst x)))
     (page_loop scripted no_parse ytcfg_ok (1 / 10) [] [endpoint_with ''p1'']
        \<lparr>server = [Response 200 (Some missing_state_response)], events = []\<rparr>) =
     Some ([JStr ''c1''], Failed KeyError)"
proof -
  have ts: "toolbar_states_of missing_state_response = Inr [(HStr ''k1'', toolbar_payload ''k1'' None)]"
    by code_simp
  have cs: "comments_of missing_state_response =
            [comment_entity ''c1'' ''k1'' ''3''] @ comment_entity ''c2'' ''k2'' ''7'' # []"
    by code_simp
  have p: "py_getitem (comment_entity ''c2'' ''k2'' ''7'') ''properties'' =
           Inr (JObj [(''commentId'', JStr ''c2''),
                    (''toolbarStateKey'', JStr ''k2''),
                    (''content'', JObj [(''content'', JStr ''hello'')]),
                    (''publishedTime'', JStr ''1 day ago'')])"
    by (simp add: comment_entity_def)
  have sk: "py_getitem (JObj [(''commentId'', JStr ''c2''),
                    (''toolbarStateKey'', JStr ''k2''),
                    (''content'', JObj [(''content'', JStr ''hello'')]),
                    (''publishedTime'', JStr ''1 day ago'')]) ''toolbarStateKey'' = Inr (JStr ''k2'')"
    by simp
  have k: "hashkey (JStr ''k2'') = Inr (HStr ''k2'')" by simp
  have m: "map_of [(HStr ''k1'', toolbar_payload ''k1'' None)] (HStr ''k2'') = None" by simp
  have ne: "[endpoint_with ''p1''] \<noteq> []" by simp
  have ajax: "ajax_request_default scripted (last [endpoint_with ''p1'']) ytcfg_ok
     \<lparr>server = [Response 200 (Some missing_state_response)], events = []\<rparr> =
     (Inr missing_state_response, \<lparr>server = [], events = [Posted (request_for ''p1'')]\<rparr>)"
    by (simp add: ajax_scripted_200)
  have 1: "\<exists>rs e.
      page_loop scripted no_parse ytcfg_ok (1 / 10) [] [endpoint_with ''p1'']
        \<lparr>server = [Response 200 (Some missing_state_response)], events = []\<rparr> =
        Some ((rs, Failed e), \<lparr>server = [], events = [Posted (request_for ''p1'')]\<rparr>) \<and>
      length rs \<le> 1"
    using missing_toolbar_state_aborts [OF ne ajax ts cs p sk k m, of no_parse "1 / 10" "[]"]
    by auto
  have 2: "map_option (\<lambda>x. (map r_cid (fst (fst x)), snd (fst x)))
     (page_loop scripted no_parse ytcfg_ok (1 / 10) [] [endpoint_with ''p1'']
        \<lparr>server = [Response 200 (Some missing_state_response)], events = []\<rparr>) =
     Some ([JStr ''c1''], Failed KeyError)"
    by code_simp
  from 1 2 show ?thesis by (intro conjI)
qed

section \<open>download_comments\<close>

lemma first_records_Suc:
  "first_records generator (Suc n) = first_records generator n @ record_of (generator n)"
  by (simp add: first_records_def)

lemma first_records_length:
  "\<forall>i<n. \<exists>c. generator i = Yield c \<Longrightarrow> length (first_records generator n) = n"
proof (induction n)
  case 0
  show ?case by (simp add: first_records_def)
next
  case (Suc n)
  then obtain c where "generator n = Yield c" by blast
  with Suc show ?case by (simp add: first_records_Suc)
qed

lemma written_records_snoc:
  "written_records to_json pretty (cs @ [c]) =
   written_records to_json pretty cs
   @ (if cs = [] then [] else ['','' @ newline]) @ [comment_str_of to_json pretty c]"
  by (cases cs) simp_all

lemma loop_inv_step:
  assumes inv: "loop_inv to_json pretty generator (Some c) first_comment cnt pulled fp"
    and next_ok: "\<forall>c'. comment' = Some c' \<longrightarrow> generator (nat cnt) = Yield c' \<and> pulled' = nat (cnt + 1)"
  shows "loop_inv to_json pretty generator comment' False (cnt + 1) pulled'
           ((if \<not> first_comment then fp @ ['','' @ newline] else fp)
            @ [comment_str_of to_json pretty c])"
proof -
  from inv have c1: "1 \<le> cnt"
    and ys: "\<forall>i<nat (cnt - 1). \<exists>c. generator i = Yield c"
    and fp: "fp = header pretty @ written_records to_json pretty (first_records generator (nat (cnt - 1)))"
    and fc: "first_comment \<longleftrightarrow> cnt = 1"
    and g: "generator (nat (cnt - 1)) = Yield c"
    by (simp_all add: loop_inv_def)
  have n: "nat cnt = Suc (nat (cnt - 1))" using c1 by simp
  have len: "length (first_records generator (nat (cnt - 1))) = nat (cnt - 1)"
    by (rule first_records_length [OF ys])
  have z: "(nat (cnt - 1) = 0) = (cnt = 1)" using c1 by arith
  have "first_records generator (nat (cnt - 1)) = [] \<longleftrightarrow>
        length (first_records generator (nat (cnt - 1))) = 0" by simp
  also have "\<dots> \<longleftrightarrow> cnt = 1" by (simp only: len z)
  finally have empty: "first_records generator (nat (cnt - 1)) = [] \<longleftrightarrow> first_comment"
    using fc by simp
  have fr: "first_records generator (nat cnt) = first_records generator (nat (cnt - 1)) @ [c]"
    by (simp add: n first_records_Suc g)
  have ys': "\<forall>i<nat cnt. \<exists>c. generator i = Yield c"
    using ys g by (auto simp: n less_Suc_eq)
  show ?thesis
    unfolding loop_inv_def
    using c1 ys' next_ok empty
    by (simp add: fp fr written_records_snoc)
qed


lemma loop_inv_result:
  assumes "loop_inv to_json pretty generator None first_comment cnt pulled fp"
  shows "1 \<le> cnt \<and> (\<forall>i<nat (cnt - 1). \<exists>c. generator i = Yield c) \<and>
         fp = header pretty @ written_records to_json pretty (first_records generator (nat (cnt - 1)))"
  using assms by (simp add: loop_inv_def)

lemma write_loop_partial:
  assumes "write_loop to_json pretty limit generator comment first_comment cnt pulled fp = Some res"
  shows "loop_inv to_json pretty generator comment first_comment cnt pulled fp \<longrightarrow>
         (\<forall>n pulled' fp'. res = (Inr n, pulled', fp') \<longrightarrow>
            1 \<le> n \<and> (\<forall>i<nat (n - 1). \<exists>c. generator i = Yield c) \<and>
            fp' = header pretty @ written_records to_json pretty (first_records generator (nat (n - 1))))"
  using assms
proof (induction to_json pretty limit generator comment first_comment cnt pulled fp res
    rule: write_loop.raw_induct [rotated 1, consumes 1, case_names step])
  case (step wl to_json pretty limit generator comment first_comment cnt pulled fp res)
  show ?case
  proof (intro impI allI)
    fix n pulled' fp'
    assume inv: "loop_inv to_json pretty generator comment first_comment cnt pulled fp"
      and res: "res = (Inr n, pulled', fp')"
    show "1 \<le> n \<and> (\<forall>i<nat (n - 1). \<exists>c. generator i = Yield c) \<and>
          fp' = header pretty @ written_records to_json pretty (first_records generator (nat (n - 1)))"
    proof (cases comment)
      case None
      with step.hyps res have "n = cnt" "fp' = fp" by simp_all
      with loop_inv_result [of to_json pretty generator first_comment cnt pulled fp] inv None
      show ?thesis by simp
    next
      case (Some c)
      let ?fp = "(if \<not> first_comment then fp @ ['','' @ newline] else fp)
                 @ [comment_str_of to_json pretty c]"
      from inv Some have p: "pulled = nat cnt" by (simp add: loop_inv_def)
      show ?thesis
      proof (cases "limit_reached limit cnt")
        case True
        with step.hyps Some have
          call: "wl to_json pretty limit generator None False (cnt + 1) pulled ?fp = Some res"
          by (simp add: Let_def)
        have "loop_inv to_json pretty generator None False (cnt + 1) pulled ?fp"
          using loop_inv_step [of to_json pretty generator c first_comment cnt pulled fp None pulled]
            inv Some by simp
        with step.IH [OF call] res show ?thesis by blast
      next
        case False
        show ?thesis
        proof (cases "generator pulled")
          case (Yield c')
          with step.hyps Some False have
            call: "wl to_json pretty limit generator (Some c') False (cnt + 1) (Suc pulled) ?fp = Some res"
            by (simp add: Let_def)
          have "loop_inv to_json pretty generator (Some c') False (cnt + 1) (Suc pulled) ?fp"
            using loop_inv_step [of to_json pretty generator c first_comment cnt pulled fp
                "Some c'" "Suc pulled"] inv Some Yield p
            by (simp add: loop_inv_def nat_add_distrib)
          with step.IH [OF call] res show ?thesis by blast
        next
          case Stop
          with step.hyps Some False have
            call: "wl to_json pretty limit generator None False (cnt + 1) (Suc pulled) ?fp = Some res"
            by (simp add: Let_def)
          have "loop_inv to_json pretty generator None False (cnt + 1) (Suc pulled) ?fp"
            using loop_inv_step [of to_json pretty generator c first_comment cnt pulled fp
                None "Suc pulled"] inv Some by simp
          with step.IH [OF call] res show ?thesis by blast
        next
          case (Raised e)
          with step.hyps Some False res show ?thesis by (simp add: Let_def)
        qed
      qed
    qed
  qed
qed

lemma write_loop_None:
  "write_loop to_json pretty limit generator None first_comment cnt pulled fp =
   Some (Inr cnt, pulled, fp)"
  by (subst write_loop.simps) simp

lemma write_loop_Some:
  "write_loop to_json pretty limit generator (Some c) first_comment cnt pulled fp =
   (if limit_reached limit cnt then
      Some (Inr (cnt + 1), pulled,
            (if \<not> first_comment then fp @ ['','' @ newline] else fp)
            @ [comment_str_of to_json pretty c])
    else (case generator pulled of
            Yield c' \<Rightarrow>
              write_loop to_json pretty limit generator (Some c') False (cnt + 1) (Suc pulled)
                ((if \<not> first_comment then fp @ ['','' @ newline] else fp)
                 @ [comment_str_of to_json pretty c])
          | Stop \<Rightarrow>
              Some (Inr (cnt + 1), Suc pulled,
                    (if \<not> first_comment then fp @ ['','' @ newline] else fp)
                    @ [comment_str_of to_json pretty c])
          | Raised e \<Rightarrow>
              Some (Inl e, Suc pulled,
                    (if \<not> first_comment then fp @ ['','' @ newline] else fp)
                    @ [comment_str_of to_json pretty c])))"
  by (subst write_loop.simps) (simp add: Let_def write_loop_None split: pull.splits)

lemma write_loop_limit:
  assumes "0 < l"
  shows "1 \<le> cnt \<Longrightarrow> cnt \<le> l \<Longrightarrow>
         \<forall>i. nat cnt \<le> i \<and> i < nat l \<longrightarrow> (\<exists>c. generator i = Yield c) \<Longrightarrow>
         \<exists>fp'. write_loop to_json pretty (Some l) generator (Some c) first_comment cnt (nat cnt) fp =
                 Some (Inr (l + 1), nat l, fp')"
proof (induction "nat (l - cnt)" arbitrary: cnt c first_comment fp)
  case 0
  then have "cnt = l" by simp
  then show ?case using assms by (simp add: write_loop_Some limit_reached_def)
next
  case (Suc m)
  then have lt: "cnt < l" by simp
  then have nr: "\<not> limit_reached (Some l) cnt" by (simp add: limit_reached_def)
  from lt Suc.prems obtain c' where y: "generator (nat cnt) = Yield c'"
    by (metis le_refl nat_less_eq_zless zero_le_one order_trans)
  have m: "m = nat (l - (cnt + 1))" using Suc.hyps(2) by simp
  have s: "Suc (nat cnt) = nat (cnt + 1)" using Suc.prems(1) by simp
  have "\<forall>i. nat (cnt + 1) \<le> i \<and> i < nat l \<longrightarrow> (\<exists>c. generator i = Yield c)"
    using Suc.prems(3) s by (metis Suc_leD)
  from Suc.hyps(1) [OF m _ _ this, of c' False]
  obtain fp' where
    "write_loop to_json pretty (Some l) generator (Some c') False (cnt + 1) (nat (cnt + 1))
       ((if \<not> first_comment then fp @ ['','' @ newline] else fp)
        @ [comment_str_of to_json pretty c]) = Some (Inr (l + 1), nat l, fp')"
    using lt Suc.prems(1) by fastforce
  then show ?case by (simp add: write_loop_Some nr y s)
qed

lemma write_loop_finite:
  assumes "limit = None \<or> limit = Some 0"
  shows "pulled \<le> n \<Longrightarrow>
         \<forall>i. pulled \<le> i \<and> i < n \<longrightarrow> (\<exists>c. generator i = Yield c) \<Longrightarrow>
         generator n = Stop \<Longrightarrow>
         \<exists>fp'. write_loop to_json pretty limit generator (Some c) first_comment cnt pulled fp =
                 Some (Inr (cnt + int (n - pulled) + 1), Suc n, fp')"
proof (induction "n - pulled" arbitrary: pulled cnt c first_comment fp)
  case 0
  then have "pulled = n" by simp
  moreover have "\<not> limit_reached limit cnt" using assms by (auto simp: limit_reached_def)
  ultimately show ?case using "0.prems"(3) by (simp add: write_loop_Some)
next
  case (Suc m)
  then have lt: "pulled < n" by simp
  have nr: "\<not> limit_reached limit cnt" using assms by (auto simp: limit_reached_def)
  from lt Suc.prems obtain c' where y: "generator pulled = Yield c'" by blast
  have m: "m = n - Suc pulled" using Suc.hyps(2) by simp
  have "\<forall>i. Suc pulled \<le> i \<and> i < n \<longrightarrow> (\<exists>c. generator i = Yield c)"
    using Suc.prems(2) by (metis Suc_leD)
  from Suc.hyps(1) [OF m _ this Suc.prems(3), of c' False "cnt + 1"]
  obtain fp' where
    "write_loop to_json pretty limit generator (Some c') False (cnt + 1) (Suc pulled)
       ((if \<not> first_comment then fp @ ['','' @ newline] else fp)
        @ [comment_str_of to_json pretty c]) =
     Some (Inr (cnt + 1 + int (n - Suc pulled) + 1), Suc n, fp')"
    using lt by fastforce
  moreover have "cnt + 1 + int (n - Suc pulled) + 1 = cnt + int (n - pulled) + 1"
    using lt by simp
  ultimately show ?case by (simp add: write_loop_Some nr y)
qed

lemma loop_inv_init:
  "generator 0 = Yield c \<Longrightarrow> loop_inv to_json pretty generator (Some c) True 1 1 (header pretty)"
  by (simp add: loop_inv_def first_records_def)

lemma download_comments_run:
  assumes "youtube_id \<notin> {None, Some []} \<or> youtube_url \<notin> {None, Some []}"
    and "output_file \<notin> {None, Some []}"
    and "generator 0 = Yield c"
  shows "download_comments to_json youtube_id youtube_url output_file limit pretty generator =
           (case write_loop to_json pretty limit generator (Some c) True 1 1 (header pretty) of
              None \<Rightarrow> None
            | Some (Inl e, pulled, fp) \<Rightarrow> Some (Inl e, pulled, fp)
            | Some (Inr cnt, pulled, fp) \<Rightarrow> Some (Inr (cnt - 1), pulled, fp @ footer pretty))"
  using assms by (auto simp: download_comments_def)

lemma download_comments_empty:
  assumes "youtube_id \<notin> {None, Some []} \<or> youtube_url \<notin> {None, Some []}"
    and "output_file \<notin> {None, Some []}"
    and "generator 0 = Stop"
  shows "download_comments to_json youtube_id youtube_url output_file limit pretty generator =
           Some (Inr 0, 1, header pretty @ footer pretty)"
  using assms by (auto simp: download_comments_def write_loop_None)

lemma download_comments_returns:
  assumes "download_comments to_json youtube_id youtube_url output_file limit pretty generator =
             Some (Inr n, pulled, fp)"
  shows "0 \<le> n \<and> length (first_records generator (nat n)) = nat n \<and>
         fp = expected_file to_json pretty (first_records generator (nat n))"
proof -
  from assms have ok: "youtube_id \<notin> {None, Some []} \<or> youtube_url \<notin> {None, Some []}"
    "output_file \<notin> {None, Some []}"
    by (auto simp: download_comments_def split: if_splits)
  show ?thesis
  proof (cases "generator 0")
    case (Yield c)
    from assms obtain cnt fp0 where
      w: "write_loop to_json pretty limit generator (Some c) True 1 1 (header pretty) =
          Some (Inr cnt, pulled, fp0)"
      and n: "n = cnt - 1" and fp: "fp = fp0 @ footer pretty"
      unfolding download_comments_run [where generator = generator, OF ok Yield]
      by (auto split: option.splits sum.splits)
    from write_loop_partial [OF w] loop_inv_init [where generator = generator and to_json = to_json and pretty = pretty, OF Yield]
    have "1 \<le> cnt" and ys: "\<forall>i<nat (cnt - 1). \<exists>c. generator i = Yield c"
      and "fp0 = header pretty @ written_records to_json pretty (first_records generator (nat (cnt - 1)))"
      by blast+
    then show ?thesis
      using first_records_length [OF ys] by (simp add: n fp expected_file_def)
  next
    case Stop
    from assms show ?thesis
      unfolding download_comments_empty [where generator = generator, OF ok Stop]
      by (simp add: expected_file_def first_records_def)
  next
    case (Raised e)
    with assms ok show ?thesis by (auto simp: download_comments_def)
  qed
qed

lemma download_comments_finite:
  assumes ok: "youtube_id \<notin> {None, Some []} \<or> youtube_url \<notin> {None, Some []}"
    "output_file \<notin> {None, Some []}"
    and lim: "limit = None \<or> limit = Some 0"
    and ys: "\<forall>i<m. \<exists>c. generator i = Yield c"
    and stop: "generator m = Stop"
  shows "download_comments to_json youtube_id youtube_url output_file limit pretty generator =
           Some (Inr (int m), Suc m, expected_file to_json pretty (first_records generator m))"
proof (cases m)
  case 0
  with stop show ?thesis
    by (simp add: download_comments_empty [where generator = generator, OF ok] expected_file_def first_records_def)
next
  case (Suc k)
  with ys obtain c where c: "generator 0 = Yield c" by blast
  have "\<forall>i. 1 \<le> i \<and> i < m \<longrightarrow> (\<exists>c. generator i = Yield c)" using ys by blast
  from write_loop_finite [OF lim _ this stop, of to_json pretty c True 1 "header pretty"] Suc
  obtain fp' where
    w: "write_loop to_json pretty limit generator (Some c) True 1 1 (header pretty) =
        Some (Inr (int m + 1), Suc m, fp')"
    by auto
  then have d: "download_comments to_json youtube_id youtube_url output_file limit pretty generator =
        Some (Inr (int m), Suc m, fp' @ footer pretty)"
    by (simp add: download_comments_run [where generator = generator, OF ok c])
  from download_comments_returns [OF d] show ?thesis by (simp add: d)
qed

lemma download_comments_limited:
  assumes pos: "0 < l"
    and ys: "\<forall>i<nat l. \<exists>c. generator i = Yield c"
    and ok: "youtube_id \<notin> {None, Some []} \<or> youtube_url \<notin> {None, Some []}"
    "output_file \<notin> {None, Some []}"
  shows "download_comments to_json youtube_id youtube_url output_file (Some l) pretty generator =
           Some (Inr l, nat l, expected_file to_json pretty (first_records generator (nat l)))"
proof -
  from pos ys obtain c where c: "generator 0 = Yield c" by (metis zero_less_nat_eq)
  have "\<forall>i. nat 1 \<le> i \<and> i < nat l \<longrightarrow> (\<exists>c. generator i = Yield c)" using ys by blast
  from write_loop_limit [OF pos _ _ this, of to_json pretty c True "header pretty"] pos
  obtain fp' where
    w: "write_loop to_json pretty (Some l) generator (Some c) True 1 1 (header pretty) =
        Some (Inr (l + 1), nat l, fp')"
    by auto
  then have d: "download_comments to_json youtube_id youtube_url output_file (Some l) pretty generator =
        Some (Inr l, nat l, fp' @ footer pretty)"
    by (simp add: download_comments_run [where generator = generator, OF ok c])
  from download_comments_returns [OF d] show ?thesis by (simp add: d)
qed

text \<open>
  C8. With a positive \<^verbatim>\<open>limit\<close> and a generator whose first \<^verbatim>\<open>limit\<close> answers are records
  (and arguments that pass the two checks at the start), \<^verbatim>\<open>download_comments\<close> returns:
  the count is \<^verbatim>\<open>limit\<close>, the file holds exactly these \<^verbatim>\<open>limit\<close> records between the
  opening and the closing writes, and exactly \<^verbatim>\<open>limit\<close> pulls were made, so none after
  the limit was reached.
\<close>

theorem download_comments_limit:
  assumes "0 < l"
    and "\<forall>i<nat l. \<exists>c. generator i = Yield c"
    and "youtube_id \<notin> {None, Some []} \<or> youtube_url \<notin> {None, Some []}"
    and "output_file \<notin> {None, Some []}"
  shows "download_comments to_json youtube_id youtube_url output_file (Some l) pretty generator =
           Some (Inr l, nat l, expected_file to_json pretty (first_records generator (nat l))) \<and>
         length (first_records generator (nat l)) = nat l"
  using download_comments_limited [OF assms] first_records_length [OF assms(2)] by simp

text \<open>
  C9. Whenever \<^verbatim>\<open>download_comments\<close> returns a count \<open>n\<close>, the file holds the opening
  writes, the first \<open>n\<close> records of the generator (there are \<open>n\<close> of them) and the closing
  writes. For a generator that yields nothing it returns 0 after one pull, and the file
  holds the opening and the closing writes only (the object with an empty array); and for
  a generator that yields \<open>m\<close> records and ends, with no limit (\<^verbatim>\<open>None\<close> or 0), it returns
  \<open>m\<close> with these \<open>m\<close> records in the file.
\<close>

theorem download_comments_count:
  "(download_comments to_json youtube_id youtube_url output_file limit pretty generator =
      Some (Inr n, pulled, fp) \<longrightarrow>
      0 \<le> n \<and> length (first_records generator (nat n)) = nat n \<and>
      fp = expected_file to_json pretty (first_records generator (nat n))) \<and>
   ((youtube_id \<notin> {None, Some []} \<or> youtube_url \<notin> {None, Some []}) \<and>
    output_file \<notin> {None, Some []} \<and> generator 0 = Stop \<longrightarrow>
      download_comments to_json youtube_id youtube_url output_file limit pretty generator =
        Some (Inr 0, 1, header pretty @ footer pretty)) \<and>
   ((youtube_id \<notin> {None, Some []} \<or> youtube_url \<notin> {None, Some []}) \<and>
    output_file \<notin> {None, Some []} \<and> (limit = None \<or> limit = Some 0) \<and>
    (\<forall>i<m. \<exists>c. generator i = Yield c) \<and> generator m = Stop \<longrightarrow>
      download_comments to_json youtube_id youtube_url output_file limit pretty generator =
        Some (Inr (int m), Suc m, expected_file to_json pretty (first_records generator m)))"
  using download_comments_returns
      [of to_json youtube_id youtube_url output_file limit pretty generator n pulled fp]
    download_comments_empty
      [of youtube_id youtube_url output_file generator to_json limit pretty]
    download_comments_finite
      [of youtube_id youtube_url output_file limit m generator to_json pretty]
  by blast

theorem download_comments_limit_witness:
  "download_comments strokes (Some ''dQw4'') None (Some ''out.json'') (Some 5) False
     (feed_of [0..<100]) =
     Some (Inr 5, 5, expected_file strokes False [0, 1, 2, 3, 4]) \<and>
   length (first_records (feed_of [0..<100]) 5) = 5"
proof -
  have ys: "\<forall>i<nat 5. \<exists>c. feed_of [0..<100] i = Yield c"
    by (simp add: feed_of_def)
  have fr: "first_records (feed_of [0..<100]) 5 = [0, 1, 2, 3, 4]"
    by code_simp
  show ?thesis
    using download_comments_limit [OF _ ys, of "Some ''dQw4''" None "Some ''out.json''" strokes False]
    by (simp add: fr)
qed

theorem download_comments_count_witness:
  "download_comments strokes None (Some ''https://www.youtube.com/watch?v=dQw4'')
     (Some ''out.json'') None False (feed_of []) =
     Some (Inr 0, 1, header False @ footer False) \<and>
   concat (header False @ footer False) =
     ''{'' @ newline @ [CHR 0x22] @ ''comments'' @ [CHR 0x22] @ '':['' @ newline @ newline
     @ '']'' @ newline @ ''}'' \<and>
   download_comments strokes None (Some ''https://www.youtube.com/watch?v=dQw4'')
     (Some ''out.json'') None True (feed_of [3, 4]) =
     Some (Inr 2, 3, expected_file strokes True [3, 4]) \<and>
   download_comments strokes None (Some ''https://www.youtube.com/watch?v=dQw4'')
     (Some ''out.json'') (Some (- 3)) False (feed_of [7, 8]) =
     Some (Inr 1, 1, expected_file strokes False [7]) \<and>
   length (first_records (feed_of [7, 8 :: nat]) 1) = 1"
proof -
  let ?url = "Some ''https://www.youtube.com/watch?v=dQw4''"
  let ?out = "Some ''out.json''"
  have 1: "download_comments strokes None ?url ?out None False (feed_of []) =
           Some (Inr 0, 1, header False @ footer False)"
    using download_comments_count
      [of strokes None ?url ?out None False "feed_of []" 0 0 "[]" 0]
    by (simp add: feed_of_def)
  have 2: "concat (header False @ footer False) =
     ''{'' @ newline @ [CHR 0x22] @ ''comments'' @ [CHR 0x22] @ '':['' @ newline @ newline
     @ '']'' @ newline @ ''}''"
    by (simp add: header_def footer_def)
  have fr: "first_records (feed_of [3, 4 :: nat]) 2 = [3, 4]" by code_simp
  have 3: "download_comments strokes None ?url ?out None True (feed_of [3, 4]) =
           Some (Inr 2, 3, expected_file strokes True [3, 4])"
  proof -
    have ys: "\<forall>i<2. \<exists>c. feed_of [3, 4 :: nat] i = Yield c" by (simp add: feed_of_def)
    have st: "feed_of [3, 4 :: nat] 2 = Stop" by (simp add: feed_of_def)
    show ?thesis
      using download_comments_count
        [of strokes None ?url ?out None True "feed_of [3, 4]" 0 0 "[]" 2] ys st
      by (simp add: fr)
  qed
  have d: "download_comments strokes None ?url ?out (Some (- 3)) False (feed_of [7, 8]) =
           Some (Inr 1, 1, expected_file strokes False [7])"
    by code_simp
  have 4: "length (first_records (feed_of [7, 8 :: nat]) 1) = 1"
    using download_comments_count
      [of strokes None ?url ?out "Some (- 3)" False "feed_of [7, 8]" 1 1
          "expected_file strokes False [7]" 0]
      d
    by simp
  from 1 2 3 d 4 show ?thesis by (intro conjI)
qed

end
